theory Spec2Isabelle
  imports Complex_Main "HOL-Library.AList"
begin

section \<open>Tile grid model (types.ts, levelParser.ts)\<close>

text \<open>
  The eight tile symbols of \<^verbatim>\<open>TILES\<close>:
  \<^verbatim>\<open>.\<close> empty, \<^verbatim>\<open>b\<close> brick, \<^verbatim>\<open>B\<close> solid, \<^verbatim>\<open>#\<close> ladder, \<^verbatim>\<open>-\<close> rope,
  \<^verbatim>\<open>G\<close> gold, \<^verbatim>\<open>E\<close> enemy, \<^verbatim>\<open>M\<close> spawn.
\<close>

datatype TileChar = EMPTY | BRICK | SOLID | LADDER | ROPE | GOLD | ENEMY | SPAWN

record TileProperties =
  solid :: bool
  passable :: bool
  climbable :: bool
  diggable :: bool
  ground :: bool

fun TILE_PROPERTIES :: "TileChar \<Rightarrow> TileProperties" where
  "TILE_PROPERTIES EMPTY =
     \<lparr>solid = False, passable = True, climbable = False, diggable = False, ground = False\<rparr>"
| "TILE_PROPERTIES BRICK =
     \<lparr>solid = True, passable = False, climbable = False, diggable = True, ground = True\<rparr>"
| "TILE_PROPERTIES SOLID =
     \<lparr>solid = True, passable = False, climbable = False, diggable = False, ground = True\<rparr>"
| "TILE_PROPERTIES LADDER =
     \<lparr>solid = False, passable = True, climbable = True, diggable = False, ground = False\<rparr>"
| "TILE_PROPERTIES ROPE =
     \<lparr>solid = False, passable = True, climbable = True, diggable = False, ground = False\<rparr>"
| "TILE_PROPERTIES GOLD =
     \<lparr>solid = False, passable = True, climbable = False, diggable = False, ground = False\<rparr>"
| "TILE_PROPERTIES ENEMY =
     \<lparr>solid = False, passable = True, climbable = False, diggable = False, ground = False\<rparr>"
| "TILE_PROPERTIES SPAWN =
     \<lparr>solid = False, passable = True, climbable = False, diggable = False, ground = False\<rparr>"

text \<open>
  A level is an array of rows, \<^verbatim>\<open>level[y][x]\<close>; rows need not have equal length
  (nothing in the code enforces it).  A position \<^verbatim>\<open>{x, y}\<close> is the pair \<open>(x, y)\<close>;
  the string keys \<^verbatim>\<open>`${x},${y}`\<close> of the JavaScript sets are in one-to-one
  correspondence with these pairs, so a \<^verbatim>\<open>Set<string>\<close> of keys is a set of pairs.
\<close>

type_synonym Level = "TileChar list list"
type_synonym Position = "int \<times> int"

definition getTile :: "Level \<Rightarrow> int \<Rightarrow> int \<Rightarrow> TileChar option" where
  "getTile level x y =
     (if y < 0 \<or> y \<ge> int (length level) \<or> x < 0 \<or> x \<ge> int (length (level ! nat y))
      then None
      else Some (level ! nat y ! nat x))"

definition findTiles :: "Level \<Rightarrow> TileChar \<Rightarrow> Position list" where
  "findTiles level tile =
     concat (map (\<lambda>y. map (\<lambda>x. (int x, int y))
                          (filter (\<lambda>x. level ! y ! x = tile) [0..<length (level ! y)]))
                 [0..<length level])"

definition getSpawnPosition :: "Level \<Rightarrow> Position option" where
  "getSpawnPosition level =
     (case findTiles level SPAWN of [] \<Rightarrow> None | p # _ \<Rightarrow> Some p)"

definition getGoldPositions :: "Level \<Rightarrow> Position list" where
  "getGoldPositions level = findTiles level GOLD"

definition cloneLevel :: "Level \<Rightarrow> Level" where
  "cloneLevel level = map (\<lambda>row. row) level"

definition normalizeTile :: "TileChar \<Rightarrow> TileChar" where
  "normalizeTile tile = (if tile = GOLD \<or> tile = ENEMY \<or> tile = SPAWN then EMPTY else tile)"

definition normalizeLevel :: "Level \<Rightarrow> Level" where
  "normalizeLevel level = map (\<lambda>row. map normalizeTile row) level"

text \<open>\<^verbatim>\<open>level[0]?.length || 0\<close>\<close>

definition levelWidth :: "Level \<Rightarrow> int" where
  "levelWidth level = (case level of [] \<Rightarrow> 0 | row # _ \<Rightarrow> int (length row))"

section \<open>Movement model (solvabilityChecker.ts)\<close>

definition hasGroundSupport :: "Level \<Rightarrow> int \<Rightarrow> int \<Rightarrow> bool" where
  "hasGroundSupport level x y =
     (let below = getTile level x (y + 1);
          current = getTile level x y
      in if current = Some LADDER \<or> current = Some ROPE then True
         else if (case below of None \<Rightarrow> False | Some b \<Rightarrow> ground (TILE_PROPERTIES b)) then True
         else if below = Some LADDER then True
         else False)"

definition isPassable :: "Level \<Rightarrow> int \<Rightarrow> int \<Rightarrow> Position set \<Rightarrow> bool" where
  "isPassable level x y dugPositions =
     (case getTile level x y of
        None \<Rightarrow> False
      | Some tile \<Rightarrow> if (x, y) \<in> dugPositions then True else passable (TILE_PROPERTIES tile))"

definition canDig :: "Level \<Rightarrow> int \<Rightarrow> int \<Rightarrow> bool" where
  "canDig level x y = (getTile level x y = Some BRICK)"

record Move =
  mx :: int
  my :: int
  dig :: "Position option"

text \<open>
  The falling loop of \<^verbatim>\<open>getValidMoves\<close>: scan down from \<open>landY\<close> until a cell that
  is not passable (land one row above it) or a ladder or rope (grab it); no move when the
  scan leaves the grid.
\<close>

function fallScan :: "Level \<Rightarrow> int \<Rightarrow> Position set \<Rightarrow> int \<Rightarrow> Move list" where
  "fallScan level x dugPositions landY =
     (if landY < int (length level) then
        (let below = getTile level x landY
         in if \<not> isPassable level x landY dugPositions
            then [\<lparr>mx = x, my = landY - 1, dig = None\<rparr>]
            else if below = Some LADDER \<or> below = Some ROPE
            then [\<lparr>mx = x, my = landY, dig = None\<rparr>]
            else fallScan level x dugPositions (landY + 1))
      else [])"
  by pat_completeness auto
termination
  by (relation "measure (\<lambda>(level, x, dugPositions, landY). nat (int (length level) - landY))") auto

declare fallScan.simps [simp del]

definition getValidMoves :: "Level \<Rightarrow> int \<Rightarrow> int \<Rightarrow> Position set \<Rightarrow> Move list" where
  "getValidMoves level x y dugPositions =
     (let current = getTile level x y;
          height = int (length level);
          width = levelWidth level;
          onClimbable = (current = Some LADDER \<or> current = Some ROPE);
          hasSupport = hasGroundSupport level x y
      in if \<not> hasSupport \<and> \<not> onClimbable then fallScan level x dugPositions (y + 1)
         else
           (if x > 0 \<and> isPassable level (x - 1) y dugPositions
            then [\<lparr>mx = x - 1, my = y, dig = None\<rparr>] else []) @
           (if x < width - 1 \<and> isPassable level (x + 1) y dugPositions
            then [\<lparr>mx = x + 1, my = y, dig = None\<rparr>] else []) @
           (if current = Some LADDER \<and> y > 0 \<and> isPassable level x (y - 1) dugPositions
            then [\<lparr>mx = x, my = y - 1, dig = None\<rparr>] else []) @
           (if y < height - 1 then
              (if getTile level x (y + 1) = Some LADDER \<or> (x, y + 1) \<in> dugPositions
               then [\<lparr>mx = x, my = y + 1, dig = None\<rparr>]
               else if current = Some LADDER \<and> isPassable level x (y + 1) dugPositions
               then [\<lparr>mx = x, my = y + 1, dig = None\<rparr>]
               else [])
            else []) @
           (if hasSupport \<and> x > 0 then
              (let digX = x - 1; digY = y + 1
               in if digY < height \<and> canDig level digX digY \<and> (digX, digY) \<notin> dugPositions
                  then [\<lparr>mx = x - 1, my = y, dig = Some (digX, digY)\<rparr>] else [])
            else []) @
           (if hasSupport \<and> x < width - 1 then
              (let digX = x + 1; digY = y + 1
               in if digY < height \<and> canDig level digX digY \<and> (digX, digY) \<notin> dugPositions
                  then [\<lparr>mx = x + 1, my = y, dig = Some (digX, digY)\<rparr>] else [])
            else []))"

section \<open>Falling positions\<close>

definition clearFall :: "Level \<Rightarrow> int \<Rightarrow> Position set \<Rightarrow> int \<Rightarrow> int \<Rightarrow> bool" where
  "clearFall level x dugPositions lo hi =
     (\<forall>j. lo \<le> j \<and> j < hi \<longrightarrow>
        isPassable level x j dugPositions \<and>
        getTile level x j \<noteq> Some LADDER \<and> getTile level x j \<noteq> Some ROPE)"

lemma clearFall_empty: "hi \<le> lo \<Longrightarrow> clearFall level x dugPositions lo hi"
  by (auto simp add: clearFall_def)

lemma clearFall_step:
  assumes "isPassable level x lo dugPositions"
    and "getTile level x lo \<noteq> Some LADDER" and "getTile level x lo \<noteq> Some ROPE"
    and "clearFall level x dugPositions (lo + 1) hi"
  shows "clearFall level x dugPositions lo hi"
  unfolding clearFall_def
proof (intro allI impI)
  fix j assume j: "lo \<le> j \<and> j < hi"
  show "isPassable level x j dugPositions \<and>
        getTile level x j \<noteq> Some LADDER \<and> getTile level x j \<noteq> Some ROPE"
  proof (cases "j = lo")
    case True
    with assms show ?thesis by simp
  next
    case False
    with j have "lo + 1 \<le> j \<and> j < hi" by simp
    with assms(4) show ?thesis by (simp add: clearFall_def)
  qed
qed

lemma fallScan_moves:
  "m \<in> set (fallScan level x dugPositions landY) \<Longrightarrow>
     mx m = x \<and> dig m = None \<and> landY - 1 \<le> my m \<and> my m < int (length level) \<and>
     ((\<not> isPassable level x (my m + 1) dugPositions \<and>
         clearFall level x dugPositions landY (my m + 1)) \<or>
      (landY \<le> my m \<and> isPassable level x (my m) dugPositions \<and>
         (getTile level x (my m) = Some LADDER \<or> getTile level x (my m) = Some ROPE) \<and>
         clearFall level x dugPositions landY (my m)))"
proof (induction level x dugPositions landY rule: fallScan.induct)
  case (1 level x dugPositions landY)
  show ?case
  proof (cases "landY < int (length level)")
    case False
    with "1.prems" show ?thesis by (simp add: fallScan.simps)
  next
    case inside: True
    show ?thesis
    proof (cases "isPassable level x landY dugPositions")
      case False
      with inside "1.prems" have "m = \<lparr>mx = x, my = landY - 1, dig = None\<rparr>"
        by (simp add: fallScan.simps)
      with False inside show ?thesis by (simp add: clearFall_empty)
    next
      case pass: True
      show ?thesis
      proof (cases "getTile level x landY = Some LADDER \<or> getTile level x landY = Some ROPE")
        case True
        with pass inside "1.prems" have "m = \<lparr>mx = x, my = landY, dig = None\<rparr>"
          by (auto simp add: fallScan.simps Let_def)
        with True pass inside show ?thesis by (simp add: clearFall_empty)
      next
        case False
        with pass inside "1.prems"
        have mem: "m \<in> set (fallScan level x dugPositions (landY + 1))"
          by (simp add: fallScan.simps [of level x dugPositions landY] Let_def)
        from "1.IH" [OF inside refl _ _ mem] pass False
        have ih: "mx m = x \<and> dig m = None \<and> landY \<le> my m \<and> my m < int (length level) \<and>
          ((\<not> isPassable level x (my m + 1) dugPositions \<and>
              clearFall level x dugPositions (landY + 1) (my m + 1)) \<or>
           (landY + 1 \<le> my m \<and> isPassable level x (my m) dugPositions \<and>
              (getTile level x (my m) = Some LADDER \<or> getTile level x (my m) = Some ROPE) \<and>
              clearFall level x dugPositions (landY + 1) (my m)))"
          by simp
        from pass False have step: "\<And>hi. clearFall level x dugPositions (landY + 1) hi \<Longrightarrow>
            clearFall level x dugPositions landY hi"
          by (auto intro: clearFall_step)
        from ih step show ?thesis by auto
      qed
    qed
  qed
qed

lemma fallScan_length: "length (fallScan level x dugPositions landY) \<le> 1"
  by (induction level x dugPositions landY rule: fallScan.induct)
     (subst fallScan.simps, simp add: Let_def)

text \<open>
  Claim C7.  From a position without ground support whose own tile is neither ladder nor
  rope, \<^verbatim>\<open>getValidMoves\<close> returns at most one move, and every move it returns is a fall in
  the same column that digs nothing: either a landing on the row just above the first cell
  below that is not passable, or a grab of the first ladder or rope cell below, every cell
  passed on the way being passable and neither ladder nor rope.
\<close>

theorem falling_moves_are_falls:
  assumes "\<not> hasGroundSupport level x y"
    and "getTile level x y \<noteq> Some LADDER" and "getTile level x y \<noteq> Some ROPE"
    and "m \<in> set (getValidMoves level x y dugPositions)"
  shows "length (getValidMoves level x y dugPositions) \<le> 1 \<and>
     mx m = x \<and> dig m = None \<and> y \<le> my m \<and>
     ((\<not> isPassable level x (my m + 1) dugPositions \<and>
         clearFall level x dugPositions (y + 1) (my m + 1)) \<or>
      (y < my m \<and> isPassable level x (my m) dugPositions \<and>
         (getTile level x (my m) = Some LADDER \<or> getTile level x (my m) = Some ROPE) \<and>
         clearFall level x dugPositions (y + 1) (my m)))"
proof -
  from assms(1-3) have eq: "getValidMoves level x y dugPositions = fallScan level x dugPositions (y + 1)"
    by (simp add: getValidMoves_def Let_def)
  with assms(4) have "m \<in> set (fallScan level x dugPositions (y + 1))" by simp
  from fallScan_moves [OF this] eq fallScan_length [of level x dugPositions "y + 1"]
  show ?thesis by auto
qed

definition fallLevel :: Level where
  "fallLevel = [[EMPTY], [EMPTY], [SOLID]]"

theorem falling_moves_are_falls_witness:
  "\<not> hasGroundSupport fallLevel 0 0 \<and> getTile fallLevel 0 0 = Some EMPTY \<and>
   getValidMoves fallLevel 0 0 {} = [\<lparr>mx = 0, my = 1, dig = None\<rparr>] \<and>
   \<not> isPassable fallLevel 0 2 {} \<and> isPassable fallLevel 0 1 {}"
proof -
  have ns: "\<not> hasGroundSupport fallLevel 0 0"
    by (simp add: fallLevel_def hasGroundSupport_def getTile_def)
  have t: "getTile fallLevel 0 0 = Some EMPTY"
    by (simp add: fallLevel_def getTile_def)
  have mv: "getValidMoves fallLevel 0 0 {} = [\<lparr>mx = 0, my = 1, dig = None\<rparr>]"
    by (simp add: fallLevel_def getValidMoves_def hasGroundSupport_def getTile_def
        fallScan.simps isPassable_def Let_def)
  have p1: "isPassable fallLevel 0 1 {}"
    by (simp add: fallLevel_def isPassable_def getTile_def)
  from falling_moves_are_falls [of fallLevel 0 0 "\<lparr>mx = 0, my = 1, dig = None\<rparr>" "{}"] ns t mv
  have "\<not> isPassable fallLevel 0 2 {}"
    by (auto simp add: fallLevel_def getTile_def)
  with ns t mv p1 show ?thesis by simp
qed

section \<open>Rendering numbers in messages\<close>

text \<open>Decimal rendering of the integers interpolated into issue and reason strings.\<close>

function string_of_nat :: "nat \<Rightarrow> string" where
  "string_of_nat n =
     (if n < 10 then [''0123456789'' ! n]
      else string_of_nat (n div 10) @ [''0123456789'' ! (n mod 10)])"
  by pat_completeness auto
termination
  by (relation "measure (\<lambda>n. n)") auto

declare string_of_nat.simps [simp del]

definition string_of_int :: "int \<Rightarrow> string" where
  "string_of_int i = (if i < 0 then CHR ''-'' # string_of_nat (nat (- i)) else string_of_nat (nat i))"

section \<open>Basic reachability: getReachablePositions\<close>

text \<open>
  The state of the breadth-first loop.  The level is part of the state the loop body has
  in scope; \<open>queue\<close> holds the entries \<^verbatim>\<open>{x, y, dugPositions}\<close> (fields \<open>qx\<close>, \<open>qy\<close>,
  \<open>qdug\<close>), \<open>rvisited\<close> and \<open>reachable\<close> are the two key sets, \<open>riterations\<close> the
  counter.
\<close>

record QueueEntry =
  qx :: int
  qy :: int
  qdug :: "Position set"

record ReachState =
  rgrid :: Level
  queue :: "QueueEntry list"
  rvisited :: "Position set"
  reachable :: "Position set"
  riterations :: nat

text \<open>
  One iteration of the \<^verbatim>\<open>while\<close> body, for the entry \<open>current\<close> just shifted off the
  queue (\<open>rest\<close> is what remains): the visited test uses the key \<^verbatim>\<open>`${x},${y}`\<close> only.
\<close>

definition reach_body :: "ReachState \<Rightarrow> QueueEntry \<Rightarrow> QueueEntry list \<Rightarrow> ReachState" where
  "reach_body s current rest =
     (let s1 = s\<lparr>queue := rest, riterations := riterations s + 1\<rparr>;
          key = (qx current, qy current)
      in if key \<in> rvisited s1 then s1
         else
           let s2 = s1\<lparr>rvisited := insert key (rvisited s1),
                       reachable := insert key (reachable s1)\<rparr>;
               moves = getValidMoves (rgrid s2) (qx current) (qy current) (qdug current)
           in s2\<lparr>queue := queue s2 @
                  map (\<lambda>move. \<lparr>qx = mx move, qy = my move,
                                 qdug = (case dig move of None \<Rightarrow> qdug current
                                         | Some d \<Rightarrow> insert d (qdug current))\<rparr>)
                      (filter (\<lambda>move. (mx move, my move) \<notin> rvisited s2) moves)\<rparr>)"

lemma riterations_reach_body [simp]:
  "riterations (reach_body s current rest) = riterations s + 1"
  by (simp add: reach_body_def Let_def)

function reach_loop :: "nat \<Rightarrow> ReachState \<Rightarrow> ReachState" where
  "reach_loop maxIterations s =
     (case queue s of
        [] \<Rightarrow> s
      | current # rest \<Rightarrow>
          if riterations s < maxIterations
          then reach_loop maxIterations (reach_body s current rest)
          else s)"
  by pat_completeness auto
termination
  by (relation "measure (\<lambda>(maxIterations, s). maxIterations - riterations s)") auto

declare reach_loop.simps [simp del]

definition getReachablePositions_run :: "Level \<Rightarrow> int \<Rightarrow> int \<Rightarrow> nat \<Rightarrow> ReachState" where
  "getReachablePositions_run level startX startY maxIterations =
     reach_loop maxIterations
       \<lparr>rgrid = level, queue = [\<lparr>qx = startX, qy = startY, qdug = {}\<rparr>], rvisited = {},
        reachable = {},
        riterations = 0\<rparr>"

definition getReachablePositions :: "Level \<Rightarrow> int \<Rightarrow> int \<Rightarrow> nat \<Rightarrow> Position set" where
  "getReachablePositions level startX startY maxIterations =
     reachable (getReachablePositions_run level startX startY maxIterations)"

section \<open>Basic validation: validateLevel\<close>

record ValidationResult =
  valid :: bool
  reachableGold :: "Position list"
  unreachableGold :: "Position list"
  spawnPosition :: "Position option"
  issues :: "string list"

text \<open>
  The loop over the gold positions appends each one to \<open>reachableGold\<close> or to
  \<open>unreachableGold\<close>, and an issue for each unreachable one, in order: two filters and a
  map.  \<^verbatim>\<open>getReachablePositions\<close> is called with its default budget of 50000.
\<close>

definition validateLevel :: "Level \<Rightarrow> ValidationResult" where
  "validateLevel level =
     (let goldPositions = getGoldPositions level
      in case getSpawnPosition level of
           None \<Rightarrow>
             \<lparr>valid = False, reachableGold = [], unreachableGold = goldPositions,
              spawnPosition = None, issues = [''No spawn position (M) found in level'']\<rparr>
         | Some spawn \<Rightarrow>
             let issues1 =
                   (if \<not> hasGroundSupport level (fst spawn) (snd spawn) then
                      (let onClimbable = (getTile level (fst spawn) (snd spawn) = Some LADDER \<or>
                                          getTile level (fst spawn) (snd spawn) = Some ROPE)
                       in if \<not> onClimbable
                          then [''Spawn position ('' @ string_of_int (fst spawn) @ '', '' @
                                string_of_int (snd spawn) @ '') has no ground support'']
                          else [])
                    else []);
                 issues2 = issues1 @
                   (if length goldPositions = 0 then [''No gold (G) found in level''] else []);
                 reach = getReachablePositions level (fst spawn) (snd spawn) 50000;
                 reachableGold = filter (\<lambda>gold. gold \<in> reach) goldPositions;
                 unreachableGold = filter (\<lambda>gold. gold \<notin> reach) goldPositions;
                 issues3 = issues2 @
                   map (\<lambda>gold. ''Gold at ('' @ string_of_int (fst gold) @ '', '' @
                                  string_of_int (snd gold) @ '') is unreachable'') unreachableGold
             in \<lparr>valid = (length unreachableGold = 0 \<and> length issues3 = 0),
                 reachableGold = reachableGold, unreachableGold = unreachableGold,
                 spawnPosition = Some spawn, issues = issues3\<rparr>)"

definition isSolvable :: "Level \<Rightarrow> bool" where
  "isSolvable level = valid (validateLevel level)"

section \<open>Full solvability: canSolveLevel\<close>

text \<open>
  A search node: position \<open>(nx, ny)\<close>, gold bitmask, dug set, and the costs g, h, f
  (named \<open>gCost\<close>, \<open>hCost\<close>, \<open>fCost\<close> here).  The \<^verbatim>\<open>parent\<close> pointer of the source is
  written but never read and is left out.
\<close>

record FullNode =
  nx :: int
  ny :: int
  collectedGold :: int
  dugPositions :: "Position set"
  gCost :: int
  hCost :: int
  fCost :: int

definition stateKey :: "FullNode \<Rightarrow> int \<times> int \<times> int" where
  "stateKey state = (nx state, ny state, collectedGold state)"

text \<open>A running minimum that starts at \<^verbatim>\<open>Infinity\<close> (\<open>None\<close>).\<close>

definition minFrom :: "int list \<Rightarrow> int option" where
  "minFrom ds = fold (\<lambda>d acc. case acc of None \<Rightarrow> Some d | Some a \<Rightarrow> Some (min a d)) ds None"

definition manhattan :: "int \<Rightarrow> int \<Rightarrow> int \<Rightarrow> int \<Rightarrow> int" where
  "manhattan x1 y1 x2 y2 = \<bar>x1 - x2\<bar> + \<bar>y1 - y2\<bar>"

definition fullHeuristic :: "int \<Rightarrow> int \<Rightarrow> int \<Rightarrow> Position list \<Rightarrow> Position list \<Rightarrow> int" where
  "fullHeuristic x y collected goldPositions escapePositions =
     (if collected = push_bit (length goldPositions) 1 - 1 then
        (case minFrom (map (\<lambda>escape. manhattan x y (fst escape) (snd escape)) escapePositions) of
           None \<Rightarrow> 0 | Some minDist \<Rightarrow> minDist)
      else
        (let uncollected = filter (\<lambda>i. and collected (push_bit i 1) = 0) [0..<length goldPositions]
         in case minFrom (map (\<lambda>i. manhattan x y (fst (goldPositions ! i)) (snd (goldPositions ! i)))
                              uncollected) of
              None \<Rightarrow> 0
            | Some minGoldDist \<Rightarrow>
                minGoldDist +
                (case minFrom (concat (map (\<lambda>escape.
                          map (\<lambda>i. manhattan (fst (goldPositions ! i)) (snd (goldPositions ! i))
                                             (fst escape) (snd escape))
                              uncollected) escapePositions)) of
                   None \<Rightarrow> 0 | Some minEscapeDist \<Rightarrow> minEscapeDist)))"

definition findEscapePositions :: "Level \<Rightarrow> Position list" where
  "findEscapePositions level =
     (let width = nat (levelWidth level);
          escapes = map (\<lambda>x. (int x, 0))
            (filter (\<lambda>x. getTile level (int x) 0 = Some LADDER \<or>
                          (getTile level (int x) 0 = Some EMPTY \<and> getTile level (int x) 1 = Some LADDER))
                    [0..<width])
      in if length escapes = 0
         then map (\<lambda>x. (int x, 0))
                (filter (\<lambda>x. getTile level (int x) 0 = Some EMPTY \<or>
                              getTile level (int x) 0 = Some ROPE \<or>
                              getTile level (int x) 0 = Some LADDER) [0..<width])
         else escapes)"

text \<open>
  \<^verbatim>\<open>goldAtPosition\<close>: the map from position key to index built by \<^verbatim>\<open>forEach\<close> (a later
  entry for the same key would overwrite an earlier one).
\<close>

definition goldAtPosition :: "Position list \<Rightarrow> Position \<Rightarrow> nat option" where
  "goldAtPosition goldPositions =
     fold (\<lambda>entry m. m(fst entry \<mapsto> snd entry))
          (zip goldPositions [0..<length goldPositions]) Map.empty"

record SolveState =
  sgrid :: Level
  openSet :: "FullNode list"
  svisited :: "(int \<times> int \<times> int) set"
  siterations :: nat

text \<open>
  What one iteration does with the node \<open>current\<close> taken from the sorted open set once it
  is known not to be a win: skip it when its key (position and gold mask) is in the
  visited set, otherwise mark it and push a node for every move whose key is not visited.
\<close>

definition solve_expand ::
  "Position list \<Rightarrow> Position list \<Rightarrow> SolveState \<Rightarrow> FullNode \<Rightarrow> SolveState" where
  "solve_expand goldPositions escapePositions s current =
     (let key = stateKey current
      in if key \<in> svisited s then s
         else
           let s2 = s\<lparr>svisited := insert key (svisited s)\<rparr>;
               moves = getValidMoves (sgrid s2) (nx current) (ny current) (dugPositions current);
               newNodes = concat (map (\<lambda>move.
                  let newCollected =
                        (case goldAtPosition goldPositions (mx move, my move) of
                           None \<Rightarrow> collectedGold current
                         | Some goldIdx \<Rightarrow> or (collectedGold current) (push_bit goldIdx 1));
                      newDugPositions =
                        (case dig move of None \<Rightarrow> dugPositions current
                         | Some d \<Rightarrow> insert d (dugPositions current));
                      gNew = gCost current + 1;
                      hNew = fullHeuristic (mx move) (my move) newCollected goldPositions escapePositions
                  in if (mx move, my move, newCollected) \<in> svisited s2 then []
                     else [\<lparr>nx = mx move, ny = my move, collectedGold = newCollected,
                            dugPositions = newDugPositions, gCost = gNew, hCost = hNew,
                            fCost = gNew + hNew\<rparr>]) moves)
           in s2\<lparr>openSet := openSet s2 @ newNodes\<rparr>)"

lemma siterations_solve_expand [simp]:
  "siterations (solve_expand goldPositions escapePositions s current) = siterations s"
  by (simp add: solve_expand_def Let_def)

text \<open>
  The search loop.  Each iteration sorts the open set by f (\<^verbatim>\<open>Array.prototype.sort\<close> is
  stable, as is \<open>sort_key\<close>) and takes its first node.  The result says whether the win
  condition was met, with the state the loop ended in.
\<close>

function solve_loop ::
  "nat \<Rightarrow> Position list \<Rightarrow> Position list \<Rightarrow> SolveState \<Rightarrow> bool \<times> SolveState" where
  "solve_loop maxIterations goldPositions escapePositions s =
     (case sort_key fCost (openSet s) of
        [] \<Rightarrow> (False, s)
      | current # rest \<Rightarrow>
          if siterations s < maxIterations then
            (let s1 = s\<lparr>openSet := rest, siterations := siterations s + 1\<rparr>
             in if collectedGold current = push_bit (length goldPositions) 1 - 1 \<and>
                   (nx current, ny current) \<in> set escapePositions
                then (True, s1)
                else solve_loop maxIterations goldPositions escapePositions
                       (solve_expand goldPositions escapePositions s1 current))
          else (False, s))"
  by pat_completeness auto
termination
  by (relation "measure (\<lambda>(maxIterations, goldPositions, escapePositions, s).
        maxIterations - siterations s)") auto

declare solve_loop.simps [simp del]

record SolveResult =
  solvable :: bool
  reason :: "string option"

definition startNode :: "Position \<Rightarrow> Position list \<Rightarrow> Position list \<Rightarrow> FullNode" where
  "startNode spawn goldPositions escapePositions =
     (let startH = fullHeuristic (fst spawn) (snd spawn) 0 goldPositions escapePositions
      in \<lparr>nx = fst spawn, ny = snd spawn,
          collectedGold = (case goldAtPosition goldPositions spawn of
                             None \<Rightarrow> 0 | Some spawnGoldIdx \<Rightarrow> push_bit spawnGoldIdx 1),
          dugPositions = {}, gCost = 0, hCost = startH, fCost = startH\<rparr>)"

definition canSolveLevel_run :: "Level \<Rightarrow> nat \<Rightarrow> Position \<Rightarrow> bool \<times> SolveState" where
  "canSolveLevel_run level maxIterations spawn =
     solve_loop maxIterations (getGoldPositions level) (findEscapePositions level)
       \<lparr>sgrid = level,
        openSet = [startNode spawn (getGoldPositions level) (findEscapePositions level)],
        svisited = {}, siterations = 0\<rparr>"

definition canSolveLevel :: "Level \<Rightarrow> nat \<Rightarrow> SolveResult" where
  "canSolveLevel level maxIterations =
     (case getSpawnPosition level of
        None \<Rightarrow> \<lparr>solvable = False, reason = Some ''No spawn position''\<rparr>
      | Some spawn \<Rightarrow>
          let goldPositions = getGoldPositions level
          in if length goldPositions = 0
             then \<lparr>solvable = False, reason = Some ''No gold in level''\<rparr>
             else if length goldPositions > 16
             then (let result = validateLevel level
                   in \<lparr>solvable = valid result,
                       reason = (if valid result then None
                                 else Some ''Too many gold pieces for full solve check'')\<rparr>)
             else
               let escapePositions = findEscapePositions level
               in if length escapePositions = 0
                  then \<lparr>solvable = False, reason = Some ''No escape positions at top of level''\<rparr>
                  else
                    (let run = canSolveLevel_run level maxIterations spawn
                     in if fst run then \<lparr>solvable = True, reason = None\<rparr>
                        else if siterations (snd run) \<ge> maxIterations
                        then \<lparr>solvable = False,
                              reason = Some (''Search exceeded '' @ string_of_nat maxIterations @
                                             '' iterations'')\<rparr>
                        else \<lparr>solvable = False,
                              reason = Some ''No path found to collect all gold and escape''\<rparr>))"

text \<open>\<^verbatim>\<open>isFullySolvable\<close> calls \<^verbatim>\<open>canSolveLevel\<close> with its default budget of 100000.\<close>

definition isFullySolvable :: "Level \<Rightarrow> bool" where
  "isFullySolvable level = solvable (canSolveLevel level 100000)"

section \<open>Facts about tile lookup\<close>

lemma set_findTiles:
  "set (findTiles level tile) =
     {(int i, int j) | i j. j < length level \<and> i < length (level ! j) \<and> level ! j ! i = tile}"
  by (auto simp add: findTiles_def)

lemma findTiles_iff:
  "(x, y) \<in> set (findTiles level tile) \<longleftrightarrow> getTile level x y = Some tile"
proof
  assume "(x, y) \<in> set (findTiles level tile)"
  then obtain j i where "j < length level" "i < length (level ! j)" "level ! j ! i = tile"
    "x = int i" "y = int j"
    by (auto simp add: set_findTiles)
  then show "getTile level x y = Some tile"
    by (simp add: getTile_def)
next
  assume t: "getTile level x y = Some tile"
  then have b: "0 \<le> y" "y < int (length level)" "0 \<le> x" "x < int (length (level ! nat y))"
    and v: "level ! nat y ! nat x = tile"
    by (auto simp add: getTile_def split: if_splits)
  from b have iy: "nat y < length level" and ix: "nat x < length (level ! nat y)" by auto
  from b have "x = int (nat x)" "y = int (nat y)" by simp_all
  with iy ix v show "(x, y) \<in> set (findTiles level tile)"
    unfolding set_findTiles by blast
qed

lemma getSpawnPosition_tile:
  assumes "getSpawnPosition level = Some spawn"
  shows "getTile level (fst spawn) (snd spawn) = Some SPAWN"
proof -
  from assms have "spawn \<in> set (findTiles level SPAWN)"
    by (auto simp add: getSpawnPosition_def split: list.splits)
  then have "(fst spawn, snd spawn) \<in> set (findTiles level SPAWN)" by simp
  then show ?thesis by (simp only: findTiles_iff)
qed

section \<open>The searches leave the level as it was\<close>

lemma rgrid_reach_body: "rgrid (reach_body s current rest) = rgrid s"
  by (simp add: reach_body_def Let_def)

lemma rgrid_reach_loop: "rgrid (reach_loop maxIterations s) = rgrid s"
proof (induction maxIterations s rule: reach_loop.induct)
  case (1 maxIterations s)
  show ?case
  proof (cases "queue s")
    case Nil
    then show ?thesis by (simp add: reach_loop.simps [of maxIterations s])
  next
    case (Cons current rest)
    show ?thesis
    proof (cases "riterations s < maxIterations")
      case True
      with Cons "1.IH" [OF Cons True] show ?thesis
        by (simp add: reach_loop.simps [of maxIterations s] rgrid_reach_body)
    next
      case False
      with Cons show ?thesis by (simp add: reach_loop.simps [of maxIterations s])
    qed
  qed
qed

lemma sgrid_solve_expand:
  "sgrid (solve_expand goldPositions escapePositions s current) = sgrid s"
  by (simp add: solve_expand_def Let_def)

lemma sgrid_solve_loop:
  "sgrid (snd (solve_loop maxIterations goldPositions escapePositions s)) = sgrid s"
proof (induction maxIterations goldPositions escapePositions s rule: solve_loop.induct)
  case (1 maxIterations goldPositions escapePositions s)
  show ?case
  proof (cases "sort_key fCost (openSet s)")
    case Nil
    then show ?thesis
      by (simp add: solve_loop.simps [of maxIterations goldPositions escapePositions s])
  next
    case (Cons current rest)
    show ?thesis
    proof (cases "siterations s < maxIterations")
      case False
      with Cons show ?thesis
        by (simp add: solve_loop.simps [of maxIterations goldPositions escapePositions s])
    next
      case budget: True
      show ?thesis
      proof (cases "collectedGold current = push_bit (length goldPositions) 1 - 1 \<and>
                    (nx current, ny current) \<in> set escapePositions")
        case True
        with Cons budget show ?thesis
          by (simp add: solve_loop.simps [of maxIterations goldPositions escapePositions s])
      next
        case False
        from "1.IH" [OF Cons budget refl False]
        have "sgrid (snd (solve_loop maxIterations goldPositions escapePositions
                (solve_expand goldPositions escapePositions
                   (s\<lparr>openSet := rest, siterations := siterations s + 1\<rparr>) current))) = sgrid s"
          by (simp add: sgrid_solve_expand)
        with Cons budget False show ?thesis
          by (simp add: solve_loop.simps [of maxIterations goldPositions escapePositions s] Let_def)
      qed
    qed
  qed
qed

text \<open>
  The level array as it stands when each function returns: the value held by the state
  of the loop the function ran, or the argument itself when it returned before any loop.
\<close>

definition getReachablePositions_gridAfter :: "Level \<Rightarrow> int \<Rightarrow> int \<Rightarrow> nat \<Rightarrow> Level" where
  "getReachablePositions_gridAfter level startX startY maxIterations =
     rgrid (getReachablePositions_run level startX startY maxIterations)"

definition validateLevel_gridAfter :: "Level \<Rightarrow> Level" where
  "validateLevel_gridAfter level =
     (case getSpawnPosition level of
        None \<Rightarrow> level
      | Some spawn \<Rightarrow> getReachablePositions_gridAfter level (fst spawn) (snd spawn) 50000)"

definition canSolveLevel_gridAfter :: "Level \<Rightarrow> nat \<Rightarrow> Level" where
  "canSolveLevel_gridAfter level maxIterations =
     (case getSpawnPosition level of
        None \<Rightarrow> level
      | Some spawn \<Rightarrow>
          if length (getGoldPositions level) = 0 then level
          else if length (getGoldPositions level) > 16 then validateLevel_gridAfter level
          else if length (findEscapePositions level) = 0 then level
          else sgrid (snd (canSolveLevel_run level maxIterations spawn)))"

text \<open>
  Claim C10.  \<^verbatim>\<open>getReachablePositions\<close>, \<^verbatim>\<open>validateLevel\<close> and \<^verbatim>\<open>canSolveLevel\<close> leave
  every cell of the level as it was: the level held by the search state when the loop ends
  is the level that was passed in (dug bricks live in the per-entry dug sets only), so a
  validation run after either search returns what it returned before.
\<close>

theorem searches_leave_level_unchanged:
  "getReachablePositions_gridAfter level startX startY maxIterations = level \<and>
   validateLevel_gridAfter level = level \<and>
   canSolveLevel_gridAfter level maxIterations = level \<and>
   validateLevel (canSolveLevel_gridAfter level maxIterations) = validateLevel level \<and>
   canSolveLevel (validateLevel_gridAfter level) maxIterations = canSolveLevel level maxIterations"
proof -
  have r: "\<And>x y n. getReachablePositions_gridAfter level x y n = level"
    by (simp add: getReachablePositions_gridAfter_def getReachablePositions_run_def rgrid_reach_loop)
  have v: "validateLevel_gridAfter level = level"
    by (simp add: validateLevel_gridAfter_def r split: option.splits)
  have c: "canSolveLevel_gridAfter level maxIterations = level"
    by (simp add: canSolveLevel_gridAfter_def canSolveLevel_run_def sgrid_solve_loop v
        split: option.splits)
  from r v c show ?thesis by simp
qed

section \<open>Structured results of canSolveLevel\<close>

lemma solve_loop_stops_on_budget:
  "solve_loop maxIterations goldPositions escapePositions s = (False, s') \<Longrightarrow>
   openSet s' \<noteq> [] \<Longrightarrow> maxIterations \<le> siterations s'"
proof (induction maxIterations goldPositions escapePositions s rule: solve_loop.induct)
  case (1 maxIterations goldPositions escapePositions s)
  show ?case
  proof (cases "sort_key fCost (openSet s)")
    case Nil
    then have "length (openSet s) = 0" by (simp flip: length_sort [of fCost "openSet s"])
    with Nil "1.prems" show ?thesis
      by (simp add: solve_loop.simps [of maxIterations goldPositions escapePositions s])
  next
    case (Cons current rest)
    show ?thesis
    proof (cases "siterations s < maxIterations")
      case False
      with Cons "1.prems" show ?thesis
        by (auto simp add: solve_loop.simps [of maxIterations goldPositions escapePositions s])
    next
      case budget: True
      show ?thesis
      proof (cases "collectedGold current = push_bit (length goldPositions) 1 - 1 \<and>
                    (nx current, ny current) \<in> set escapePositions")
        case True
        with Cons budget "1.prems" show ?thesis
          by (simp add: solve_loop.simps [of maxIterations goldPositions escapePositions s])
      next
        case False
        with Cons budget "1.prems"
        have "solve_loop maxIterations goldPositions escapePositions
                (solve_expand goldPositions escapePositions
                   (s\<lparr>openSet := rest, siterations := siterations s + 1\<rparr>) current) = (False, s')"
          by (auto simp add: solve_loop.simps [of maxIterations goldPositions escapePositions s] Let_def
              split: if_splits)
        from "1.IH" [OF Cons budget refl False this "1.prems"(2)] show ?thesis .
      qed
    qed
  qed
qed

definition exceededReason :: "nat \<Rightarrow> string" where
  "exceededReason maxIterations = ''Search exceeded '' @ string_of_nat maxIterations @ '' iterations''"

text \<open>
  Claim C8.  \<^verbatim>\<open>canSolveLevel\<close> has no failing operation (every array read goes through
  the bounds-checked \<^verbatim>\<open>getTile\<close> or stays inside a row) and reports failure as data:
  no spawn, then no gold, each give not-solvable with their reason; more than 16 gold gives
  the basic validator's verdict; then no escape position gives not-solvable with its
  reason; and a search that stops unsolved with nodes still open, so stopped by the
  iteration budget, gives not-solvable with the exhaustion reason, which differs from every
  other reason.  A result is solvable exactly when it carries no reason.
\<close>

theorem canSolveLevel_structured_results:
  "(getSpawnPosition level = None \<longrightarrow>
      canSolveLevel level maxIterations = \<lparr>solvable = False, reason = Some ''No spawn position''\<rparr>) \<and>
   (getSpawnPosition level \<noteq> None \<and> length (getGoldPositions level) = 0 \<longrightarrow>
      canSolveLevel level maxIterations = \<lparr>solvable = False, reason = Some ''No gold in level''\<rparr>) \<and>
   (getSpawnPosition level \<noteq> None \<and> length (getGoldPositions level) > 16 \<longrightarrow>
      solvable (canSolveLevel level maxIterations) = valid (validateLevel level)) \<and>
   (getSpawnPosition level \<noteq> None \<and> 0 < length (getGoldPositions level) \<and>
    length (getGoldPositions level) \<le> 16 \<and> length (findEscapePositions level) = 0 \<longrightarrow>
      canSolveLevel level maxIterations =
        \<lparr>solvable = False, reason = Some ''No escape positions at top of level''\<rparr>) \<and>
   (\<forall>spawn. getSpawnPosition level = Some spawn \<and> 0 < length (getGoldPositions level) \<and>
      length (getGoldPositions level) \<le> 16 \<and> 0 < length (findEscapePositions level) \<and>
      \<not> fst (canSolveLevel_run level maxIterations spawn) \<and>
      openSet (snd (canSolveLevel_run level maxIterations spawn)) \<noteq> [] \<longrightarrow>
      canSolveLevel level maxIterations =
        \<lparr>solvable = False, reason = Some (exceededReason maxIterations)\<rparr>) \<and>
   exceededReason maxIterations \<notin>
     {''No spawn position'', ''No gold in level'', ''Too many gold pieces for full solve check'',
      ''No escape positions at top of level'', ''No path found to collect all gold and escape''} \<and>
   (solvable (canSolveLevel level maxIterations) \<longleftrightarrow>
      reason (canSolveLevel level maxIterations) = None)"
proof (intro conjI)
  show "getSpawnPosition level = None \<longrightarrow>
      canSolveLevel level maxIterations = \<lparr>solvable = False, reason = Some ''No spawn position''\<rparr>"
    by (simp add: canSolveLevel_def)
  show "getSpawnPosition level \<noteq> None \<and> length (getGoldPositions level) = 0 \<longrightarrow>
      canSolveLevel level maxIterations = \<lparr>solvable = False, reason = Some ''No gold in level''\<rparr>"
    by (auto simp add: canSolveLevel_def)
  show "getSpawnPosition level \<noteq> None \<and> length (getGoldPositions level) > 16 \<longrightarrow>
      solvable (canSolveLevel level maxIterations) = valid (validateLevel level)"
  proof
    assume h: "getSpawnPosition level \<noteq> None \<and> length (getGoldPositions level) > 16"
    then obtain spawn where "getSpawnPosition level = Some spawn" by auto
    moreover from h have "length (getGoldPositions level) \<noteq> 0" by auto
    ultimately show "solvable (canSolveLevel level maxIterations) = valid (validateLevel level)"
      using h by (simp add: canSolveLevel_def Let_def)
  qed
  show "getSpawnPosition level \<noteq> None \<and> 0 < length (getGoldPositions level) \<and>
    length (getGoldPositions level) \<le> 16 \<and> length (findEscapePositions level) = 0 \<longrightarrow>
      canSolveLevel level maxIterations =
        \<lparr>solvable = False, reason = Some ''No escape positions at top of level''\<rparr>"
    by (auto simp add: canSolveLevel_def Let_def)
  show "\<forall>spawn. getSpawnPosition level = Some spawn \<and> 0 < length (getGoldPositions level) \<and>
      length (getGoldPositions level) \<le> 16 \<and> 0 < length (findEscapePositions level) \<and>
      \<not> fst (canSolveLevel_run level maxIterations spawn) \<and>
      openSet (snd (canSolveLevel_run level maxIterations spawn)) \<noteq> [] \<longrightarrow>
      canSolveLevel level maxIterations =
        \<lparr>solvable = False, reason = Some (exceededReason maxIterations)\<rparr>"
  proof (intro allI impI)
    fix spawn
    assume h: "getSpawnPosition level = Some spawn \<and> 0 < length (getGoldPositions level) \<and>
      length (getGoldPositions level) \<le> 16 \<and> 0 < length (findEscapePositions level) \<and>
      \<not> fst (canSolveLevel_run level maxIterations spawn) \<and>
      openSet (snd (canSolveLevel_run level maxIterations spawn)) \<noteq> []"
    obtain won s' where run: "canSolveLevel_run level maxIterations spawn = (won, s')"
      by (cases "canSolveLevel_run level maxIterations spawn")
    with h have nw: "\<not> won" and op: "openSet s' \<noteq> []" by simp_all
    from run nw have "solve_loop maxIterations (getGoldPositions level) (findEscapePositions level)
       \<lparr>sgrid = level,
        openSet = [startNode spawn (getGoldPositions level) (findEscapePositions level)],
        svisited = {}, siterations = 0\<rparr> = (False, s')"
      by (simp add: canSolveLevel_run_def)
    from solve_loop_stops_on_budget [OF this op] have "maxIterations \<le> siterations s'" .
    with h run nw show "canSolveLevel level maxIterations =
        \<lparr>solvable = False, reason = Some (exceededReason maxIterations)\<rparr>"
      by (simp add: canSolveLevel_def Let_def exceededReason_def)
  qed
  show "exceededReason maxIterations \<notin>
     {''No spawn position'', ''No gold in level'', ''Too many gold pieces for full solve check'',
      ''No escape positions at top of level'', ''No path found to collect all gold and escape''}"
    by (simp add: exceededReason_def)
  show "solvable (canSolveLevel level maxIterations) \<longleftrightarrow>
      reason (canSolveLevel level maxIterations) = None"
    by (simp add: canSolveLevel_def Let_def split: option.splits)
qed

section \<open>Unfolding the loops on explicit states\<close>

lemma reach_loop_Nil:
  "reach_loop n \<lparr>rgrid = g, queue = [], rvisited = v, reachable = r, riterations = i\<rparr> =
     \<lparr>rgrid = g, queue = [], rvisited = v, reachable = r, riterations = i\<rparr>"
  by (subst reach_loop.simps) simp

lemma reach_loop_Cons:
  "reach_loop n \<lparr>rgrid = g, queue = c # rest, rvisited = v, reachable = r, riterations = i\<rparr> =
     (if i < n
      then reach_loop n
             (reach_body \<lparr>rgrid = g, queue = c # rest, rvisited = v, reachable = r, riterations = i\<rparr>
                c rest)
      else \<lparr>rgrid = g, queue = c # rest, rvisited = v, reachable = r, riterations = i\<rparr>)"
  by (subst reach_loop.simps) simp

lemma solve_loop_unfold:
  "solve_loop n gs es \<lparr>sgrid = g, openSet = os, svisited = v, siterations = i\<rparr> =
     (case sort_key fCost os of
        [] \<Rightarrow> (False, \<lparr>sgrid = g, openSet = os, svisited = v, siterations = i\<rparr>)
      | current # rest \<Rightarrow>
          if i < n then
            (if collectedGold current = push_bit (length gs) 1 - 1 \<and>
                (nx current, ny current) \<in> set es
             then (True, \<lparr>sgrid = g, openSet = rest, svisited = v, siterations = i + 1\<rparr>)
             else solve_loop n gs es
                    (solve_expand gs es
                       \<lparr>sgrid = g, openSet = rest, svisited = v, siterations = i + 1\<rparr> current))
          else (False, \<lparr>sgrid = g, openSet = os, svisited = v, siterations = i\<rparr>))"
  by (cases "sort_key fCost os")
     (simp_all add: Let_def
        solve_loop.simps [of n gs es "\<lparr>sgrid = g, openSet = os, svisited = v, siterations = i\<rparr>"])

lemma upt_0_2: "[0..<2] = [0, Suc 0]"
  by (simp add: numeral_2_eq_2)

lemma upt_0_3: "[0..<3] = [0, Suc 0, Suc (Suc 0)]"
  by (simp add: numeral_3_eq_3)

lemmas move_eval = getValidMoves_def hasGroundSupport_def getTile_def fallScan.simps
  isPassable_def canDig_def levelWidth_def Let_def

lemmas reach_eval = getReachablePositions_def getReachablePositions_run_def reach_loop_Cons
  reach_loop_Nil reach_body_def Let_def

lemmas solve_eval = solve_loop_unfold solve_expand_def stateKey_def fullHeuristic_def minFrom_def
  manhattan_def Let_def

section \<open>Full solvability and basic validity\<close>

text \<open>
  A level whose spawn hangs in the air: the player falls onto the gold, walks to the ladder
  and climbs to the top row.
\<close>

definition unsupportedSpawnLevel :: Level where
  "unsupportedSpawnLevel = [[SPAWN, LADDER], [GOLD, LADDER], [SOLID, SOLID]]"

lemma unsupported_moves:
  "getValidMoves unsupportedSpawnLevel 0 0 {} = [\<lparr>mx = 0, my = 1, dig = None\<rparr>]"
  "getValidMoves unsupportedSpawnLevel 0 1 {} = [\<lparr>mx = 1, my = 1, dig = None\<rparr>]"
  "getValidMoves unsupportedSpawnLevel 1 1 {} =
     [\<lparr>mx = 0, my = 1, dig = None\<rparr>, \<lparr>mx = 1, my = 0, dig = None\<rparr>]"
  "getValidMoves unsupportedSpawnLevel 1 0 {} =
     [\<lparr>mx = 0, my = 0, dig = None\<rparr>, \<lparr>mx = 1, my = 1, dig = None\<rparr>]"
  by (simp_all add: move_eval unsupportedSpawnLevel_def)

lemma unsupported_facts:
  "getSpawnPosition unsupportedSpawnLevel = Some (0, 0)"
  "getGoldPositions unsupportedSpawnLevel = [(0, 1)]"
  "findEscapePositions unsupportedSpawnLevel = [(1, 0)]"
  "\<not> hasGroundSupport unsupportedSpawnLevel 0 0"
  "getTile unsupportedSpawnLevel 0 0 = Some SPAWN"
  by (simp_all add: getSpawnPosition_def getGoldPositions_def findTiles_def findEscapePositions_def
      levelWidth_def hasGroundSupport_def getTile_def unsupportedSpawnLevel_def Let_def upt_0_2)

lemma unsupported_reach:
  "getReachablePositions unsupportedSpawnLevel 0 0 50000 = {(1, 0), (1, 1), (0, 1), (0, 0)}"
  by (simp add: reach_eval unsupported_moves)

lemma goldAtPosition_single: "goldAtPosition [p] = [p \<mapsto> 0]"
  by (simp add: goldAtPosition_def)

lemma unsupported_solvable: "isFullySolvable unsupportedSpawnLevel"
  by (simp add: isFullySolvable_def canSolveLevel_def canSolveLevel_run_def startNode_def
      unsupported_facts unsupported_moves goldAtPosition_single solve_eval)

text \<open>
  A level whose spawn stands on a solid block.  The gold at \<open>(1, 4)\<close> lies under the two
  bricks at \<open>(1, 2)\<close> and \<open>(1, 3)\<close>; the way to it is to dig \<open>(1, 3)\<close> from \<open>(0, 2)\<close>, which
  is reached over the top row.
\<close>

definition detourLevel :: Level where
  "detourLevel =
     [[EMPTY, GOLD, ROPE, LADDER, SOLID, LADDER],
      [EMPTY, SOLID, SPAWN, LADDER, SOLID, LADDER],
      [EMPTY, BRICK, SOLID, SOLID, SOLID, LADDER],
      [SOLID, BRICK, SOLID, SOLID, SOLID, LADDER],
      [SOLID, GOLD, EMPTY, EMPTY, EMPTY, LADDER],
      [SOLID, SOLID, SOLID, SOLID, SOLID, SOLID]]"

lemma detour_moves:
  "getValidMoves detourLevel 2 1 {} =
     [\<lparr>mx = 3, my = 1, dig = None\<rparr>, \<lparr>mx = 1, my = 1, dig = Some (1, 2)\<rparr>]"
  "getValidMoves detourLevel 3 1 {} =
     [\<lparr>mx = 2, my = 1, dig = None\<rparr>, \<lparr>mx = 3, my = 0, dig = None\<rparr>]"
  "getValidMoves detourLevel 1 1 {(1, 2)} =
     [\<lparr>mx = 0, my = 1, dig = None\<rparr>, \<lparr>mx = 2, my = 1, dig = None\<rparr>, \<lparr>mx = 1, my = 2, dig = None\<rparr>]"
  "getValidMoves detourLevel 3 0 {} =
     [\<lparr>mx = 2, my = 0, dig = None\<rparr>, \<lparr>mx = 3, my = 1, dig = None\<rparr>]"
  "getValidMoves detourLevel 0 1 {(1, 2)} =
     [\<lparr>mx = 0, my = 2, dig = None\<rparr>]"
  "getValidMoves detourLevel 1 2 {(1, 2)} =
     [\<lparr>mx = 0, my = 2, dig = None\<rparr>]"
  "getValidMoves detourLevel 2 0 {} =
     [\<lparr>mx = 1, my = 0, dig = None\<rparr>, \<lparr>mx = 3, my = 0, dig = None\<rparr>]"
  "getValidMoves detourLevel 0 2 {(1, 2)} =
     [\<lparr>mx = 1, my = 2, dig = None\<rparr>, \<lparr>mx = 1, my = 2, dig = Some (1, 3)\<rparr>]"
  "getValidMoves detourLevel 1 0 {} =
     [\<lparr>mx = 0, my = 0, dig = None\<rparr>, \<lparr>mx = 2, my = 0, dig = None\<rparr>]"
  "getValidMoves detourLevel 0 0 {} =
     [\<lparr>mx = 0, my = 2, dig = None\<rparr>]"
  "getValidMoves detourLevel 0 2 {} =
     [\<lparr>mx = 1, my = 2, dig = Some (1, 3)\<rparr>]"
  "getValidMoves detourLevel 1 2 {(1, 3)} =
     [\<lparr>mx = 0, my = 2, dig = None\<rparr>, \<lparr>mx = 1, my = 3, dig = None\<rparr>]"
  "getValidMoves detourLevel 1 3 {(1, 3)} =
     [\<lparr>mx = 1, my = 4, dig = None\<rparr>]"
  "getValidMoves detourLevel 1 4 {(1, 3)} =
     [\<lparr>mx = 2, my = 4, dig = None\<rparr>]"
  "getValidMoves detourLevel 2 4 {(1, 3)} =
     [\<lparr>mx = 1, my = 4, dig = None\<rparr>, \<lparr>mx = 3, my = 4, dig = None\<rparr>]"
  "getValidMoves detourLevel 3 4 {(1, 3)} =
     [\<lparr>mx = 2, my = 4, dig = None\<rparr>, \<lparr>mx = 4, my = 4, dig = None\<rparr>]"
  "getValidMoves detourLevel 4 4 {(1, 3)} =
     [\<lparr>mx = 3, my = 4, dig = None\<rparr>, \<lparr>mx = 5, my = 4, dig = None\<rparr>]"
  "getValidMoves detourLevel 5 4 {(1, 3)} =
     [\<lparr>mx = 4, my = 4, dig = None\<rparr>, \<lparr>mx = 5, my = 3, dig = None\<rparr>]"
  "getValidMoves detourLevel 5 3 {(1, 3)} =
     [\<lparr>mx = 5, my = 2, dig = None\<rparr>, \<lparr>mx = 5, my = 4, dig = None\<rparr>]"
  "getValidMoves detourLevel 5 2 {(1, 3)} =
     [\<lparr>mx = 5, my = 1, dig = None\<rparr>, \<lparr>mx = 5, my = 3, dig = None\<rparr>]"
  "getValidMoves detourLevel 5 1 {(1, 3)} =
     [\<lparr>mx = 5, my = 0, dig = None\<rparr>, \<lparr>mx = 5, my = 2, dig = None\<rparr>]"
  by (simp_all add: move_eval detourLevel_def)

lemma upt_0_6: "[0..<6] = [0, 1, 2, 3, 4, 5]"
  by (simp add: upt_conv_Cons)

lemma detour_facts:
  "getSpawnPosition detourLevel = Some (2, 1)"
  "getGoldPositions detourLevel = [(1, 0), (1, 4)]"
  "findEscapePositions detourLevel = [(3, 0), (5, 0)]"
  "hasGroundSupport detourLevel 2 1"
  by (simp_all add: getSpawnPosition_def getGoldPositions_def findTiles_def findEscapePositions_def
      levelWidth_def hasGroundSupport_def getTile_def detourLevel_def Let_def upt_0_6)

lemma detour_reach:
  "getReachablePositions detourLevel 2 1 50000 =
     {(0, 0), (1, 0), (0, 2), (2, 0), (1, 2), (0, 1), (3, 0), (1, 1), (3, 1), (2, 1)}"
  by (simp add: reach_eval detour_moves)

lemma goldAtPosition_pair: "goldAtPosition [p, q] = [p \<mapsto> 0, q \<mapsto> 1]"
  by (simp add: goldAtPosition_def upt_0_2)

lemma detour_solvable: "isFullySolvable detourLevel"
  by (simp add: isFullySolvable_def canSolveLevel_def canSolveLevel_run_def startNode_def
      detour_facts detour_moves goldAtPosition_pair solve_eval upt_0_2)

text \<open>
  Against claim C2 as stated, on two counts.  The first level is fully solvable although the
  basic validator records its spawn as unsupported.  In the second the spawn stands on a solid
  block and the full solver collects both gold pieces and escapes, yet the basic validator
  reports the gold at \<open>(1, 4)\<close> as unreachable: its search reaches \<open>(1, 2)\<close> first with the dug
  set \<open>{(1, 2)}\<close> and drops the later entry for \<open>(1, 2)\<close> that carries \<open>{(1, 3)}\<close>.
\<close>

theorem full_solve_without_valid:
  "isFullySolvable unsupportedSpawnLevel \<and>
   validateLevel unsupportedSpawnLevel =
     \<lparr>valid = False, reachableGold = [(0, 1)], unreachableGold = [],
      spawnPosition = Some (0, 0),
      issues = [''Spawn position (0, 0) has no ground support'']\<rparr> \<and>
   isFullySolvable detourLevel \<and> hasGroundSupport detourLevel 2 1 \<and>
   validateLevel detourLevel =
     \<lparr>valid = False, reachableGold = [(1, 0)], unreachableGold = [(1, 4)],
      spawnPosition = Some (2, 1), issues = [''Gold at (1, 4) is unreachable'']\<rparr>"
  by (simp add: unsupported_solvable detour_solvable validateLevel_def unsupported_facts
      unsupported_reach detour_facts detour_reach Let_def string_of_int_def string_of_nat.simps)

section \<open>What a full solve does guarantee\<close>

text \<open>
  Reachable under some dig history, the notion of a reachable position that the movement
  model is described with: the positions, with the dug set carried to them, that a chain of
  moves of \<^verbatim>\<open>getValidMoves\<close> leads to from the start, each move adding its dig to the dug set
  of the moves before it.  Neither search computes this relation; both prune it.
\<close>

inductive reachesWithDigs :: "Level \<Rightarrow> Position \<Rightarrow> Position \<Rightarrow> Position set \<Rightarrow> bool"
  for level :: Level and start :: Position where
  start: "reachesWithDigs level start start {}"
| step: "reachesWithDigs level start (x, y) dug \<Longrightarrow> move \<in> set (getValidMoves level x y dug) \<Longrightarrow>
         reachesWithDigs level start (mx move, my move)
           (case dig move of None \<Rightarrow> dug | Some d \<Rightarrow> insert d dug)"

code_pred reachesWithDigs .

text \<open>
  The moves bound the relation: in the level with the hanging spawn no chain leaves the four
  cells above the floor, and none digs.
\<close>

lemma unsupported_walks:
  "reachesWithDigs unsupportedSpawnLevel (0, 0) p dug \<Longrightarrow>
   p \<in> {(0, 0), (0, 1), (1, 1), (1, 0)} \<and> dug = {}"
proof (induction rule: reachesWithDigs.induct)
  case start
  show ?case by simp
next
  case (step x y dug move)
  then have "(x, y) = (0, 0) \<or> (x, y) = (0, 1) \<or> (x, y) = (1, 1) \<or> (x, y) = (1, 0)"
    and "dug = {}"
    by auto
  with step.hyps(2) show ?case
    by (auto simp add: unsupported_moves)
qed

lemma fold_upd_Some:
  "fold (\<lambda>entry m. m(fst entry \<mapsto> snd entry)) xs m0 p = Some i \<Longrightarrow>
   (p, i) \<in> set xs \<or> m0 p = Some i"
  by (induction xs arbitrary: m0) (fastforce split: if_splits)+

lemma goldAtPosition_Some:
  assumes "goldAtPosition goldPositions p = Some i"
  shows "i < length goldPositions \<and> goldPositions ! i = p"
proof -
  from fold_upd_Some [OF assms [unfolded goldAtPosition_def]]
  have "(p, i) \<in> set (zip goldPositions [0..<length goldPositions])" by simp
  then show ?thesis by (auto simp add: set_zip)
qed

definition onWalk :: "Level \<Rightarrow> Position \<Rightarrow> Position list \<Rightarrow> FullNode \<Rightarrow> bool" where
  "onWalk level start goldPositions node \<longleftrightarrow>
     reachesWithDigs level start (nx node, ny node) (dugPositions node) \<and>
     (\<forall>i < length goldPositions. bit (collectedGold node) i \<longrightarrow>
        (\<exists>dug. reachesWithDigs level start (goldPositions ! i) dug))"

lemma onWalk_move:
  assumes cur: "onWalk level start goldPositions current"
    and mv: "move \<in> set (getValidMoves level (nx current) (ny current) (dugPositions current))"
  shows "onWalk level start goldPositions
     \<lparr>nx = mx move, ny = my move,
      collectedGold = (case goldAtPosition goldPositions (mx move, my move) of
                         None \<Rightarrow> collectedGold current
                       | Some goldIdx \<Rightarrow> or (collectedGold current) (push_bit goldIdx 1)),
      dugPositions = (case dig move of None \<Rightarrow> dugPositions current
                      | Some d \<Rightarrow> insert d (dugPositions current)),
      gCost = g, hCost = h, fCost = f\<rparr>"
proof -
  from cur have "reachesWithDigs level start (nx current, ny current) (dugPositions current)"
    by (simp add: onWalk_def)
  from reachesWithDigs.step [OF this mv]
  have here: "reachesWithDigs level start (mx move, my move)
      (case dig move of None \<Rightarrow> dugPositions current | Some d \<Rightarrow> insert d (dugPositions current))" .
  show ?thesis
  proof (cases "goldAtPosition goldPositions (mx move, my move)")
    case None
    with cur here show ?thesis by (simp add: onWalk_def)
  next
    case (Some goldIdx)
    from goldAtPosition_Some [OF Some]
    have "goldIdx < length goldPositions" "goldPositions ! goldIdx = (mx move, my move)"
      by simp_all
    with cur here Some show ?thesis
      by (auto simp add: onWalk_def bit_or_iff bit_exp_iff)
  qed
qed

lemma solve_expand_onWalk:
  assumes "sgrid s = level"
    and "onWalk level start goldPositions current"
    and "\<forall>node \<in> set (openSet s). onWalk level start goldPositions node"
  shows "\<forall>node \<in> set (openSet (solve_expand goldPositions escapePositions s current)).
     onWalk level start goldPositions node"
  using assms onWalk_move [OF assms(2)]
  by (auto simp add: solve_expand_def Let_def split: if_splits)

lemma solve_loop_onWalk:
  "fst (solve_loop maxIterations goldPositions escapePositions s) \<Longrightarrow>
   sgrid s = level \<Longrightarrow>
   \<forall>node \<in> set (openSet s). onWalk level start goldPositions node \<Longrightarrow>
   (\<forall>i < length goldPositions. \<exists>dug. reachesWithDigs level start (goldPositions ! i) dug) \<and>
   (\<exists>escape \<in> set escapePositions. \<exists>dug. reachesWithDigs level start escape dug)"
proof (induction maxIterations goldPositions escapePositions s rule: solve_loop.induct)
  case (1 maxIterations goldPositions escapePositions s)
  show ?case
  proof (cases "sort_key fCost (openSet s)")
    case Nil
    with "1.prems"(1) show ?thesis
      by (simp add: solve_loop.simps [of maxIterations goldPositions escapePositions s])
  next
    case (Cons current rest)
    have "set (sort_key fCost (openSet s)) = set (openSet s)" by simp
    with Cons have mem: "current \<in> set (openSet s)" "set rest \<subseteq> set (openSet s)"
      by auto
    with "1.prems"(3) have cur: "onWalk level start goldPositions current"
      and others: "\<forall>node \<in> set rest. onWalk level start goldPositions node"
      by auto
    show ?thesis
    proof (cases "siterations s < maxIterations")
      case False
      with Cons "1.prems"(1) show ?thesis
        by (simp add: solve_loop.simps [of maxIterations goldPositions escapePositions s])
    next
      case True
      let ?s1 = "s\<lparr>openSet := rest, siterations := siterations s + 1\<rparr>"
      show ?thesis
      proof (cases "collectedGold current = push_bit (length goldPositions) 1 - 1 \<and>
          (nx current, ny current) \<in> set escapePositions")
        case won: True
        then have "collectedGold current = mask (length goldPositions)"
          by (simp add: mask_eq_exp_minus_1)
        with cur have "\<forall>i < length goldPositions.
            \<exists>dug. reachesWithDigs level start (goldPositions ! i) dug"
          by (simp add: onWalk_def bit_mask_iff)
        moreover from cur won
        have "\<exists>escape \<in> set escapePositions. \<exists>dug. reachesWithDigs level start escape dug"
          unfolding onWalk_def by blast
        ultimately show ?thesis by simp
      next
        case lost: False
        from "1.prems"(2) have g: "sgrid ?s1 = level" by simp
        from others have o: "\<forall>node \<in> set (openSet ?s1). onWalk level start goldPositions node"
          by simp
        from Cons True lost "1.prems"(1)
        have run: "fst (solve_loop maxIterations goldPositions escapePositions
            (solve_expand goldPositions escapePositions ?s1 current))"
          by (auto simp add: solve_loop.simps [of maxIterations goldPositions escapePositions s]
              Let_def split: if_splits)
        from "1.prems"(2) have g2: "sgrid (solve_expand goldPositions escapePositions ?s1 current) = level"
          by (simp add: sgrid_solve_expand)
        from "1.IH" [OF Cons True refl lost run g2 solve_expand_onWalk [OF g cur o]]
        show ?thesis .
      qed
    qed
  qed
qed

definition queueOnWalk :: "Level \<Rightarrow> Position \<Rightarrow> ReachState \<Rightarrow> bool" where
  "queueOnWalk level start s \<longleftrightarrow>
     (\<forall>entry \<in> set (queue s). reachesWithDigs level start (qx entry, qy entry) (qdug entry)) \<and>
     (\<forall>p \<in> reachable s. \<exists>dug. reachesWithDigs level start p dug)"

lemma reach_body_onWalk:
  assumes "rgrid s = level" and "queueOnWalk level start s" and "queue s = current # rest"
  shows "queueOnWalk level start (reach_body s current rest)"
proof -
  from assms(2,3)
  have cur: "reachesWithDigs level start (qx current, qy current) (qdug current)"
    and others: "\<forall>entry \<in> set rest. reachesWithDigs level start (qx entry, qy entry) (qdug entry)"
    and seen: "\<forall>p \<in> reachable s. \<exists>dug. reachesWithDigs level start p dug"
    by (simp_all add: queueOnWalk_def)
  from cur have "\<exists>dug. reachesWithDigs level start (qx current, qy current) dug" ..
  with assms(1) others seen reachesWithDigs.step [OF cur] show ?thesis
    by (auto simp add: queueOnWalk_def reach_body_def Let_def)
qed

lemma reach_loop_onWalk:
  "rgrid s = level \<Longrightarrow> queueOnWalk level start s \<Longrightarrow>
   queueOnWalk level start (reach_loop maxIterations s)"
proof (induction maxIterations s rule: reach_loop.induct)
  case (1 maxIterations s)
  show ?case
  proof (cases "queue s")
    case Nil
    with "1.prems" show ?thesis by (simp add: reach_loop.simps [of maxIterations s])
  next
    case (Cons current rest)
    show ?thesis
    proof (cases "riterations s < maxIterations")
      case False
      with Cons "1.prems" show ?thesis by (simp add: reach_loop.simps [of maxIterations s])
    next
      case True
      from "1.prems"(1) have "rgrid (reach_body s current rest) = level"
        by (simp add: rgrid_reach_body)
      from "1.IH" [OF Cons True this reach_body_onWalk [OF "1.prems" Cons]] Cons True
      show ?thesis by (simp add: reach_loop.simps [of maxIterations s])
    qed
  qed
qed

lemma getReachablePositions_onWalk:
  assumes "p \<in> getReachablePositions level x y maxIterations"
  shows "\<exists>dug. reachesWithDigs level (x, y) p dug"
proof -
  let ?s = "\<lparr>rgrid = level, queue = [\<lparr>qx = x, qy = y, qdug = {}\<rparr>], rvisited = {},
             reachable = {}, riterations = 0\<rparr>"
  have "queueOnWalk level (x, y) ?s"
    by (simp add: queueOnWalk_def reachesWithDigs.start)
  with reach_loop_onWalk [of ?s level "(x, y)" maxIterations]
  have "queueOnWalk level (x, y) (reach_loop maxIterations ?s)" by simp
  with assms show ?thesis
    by (simp add: getReachablePositions_def getReachablePositions_run_def queueOnWalk_def)
qed

lemma startNode_onWalk:
  "onWalk level start goldPositions (startNode start goldPositions escapePositions)"
proof (cases "goldAtPosition goldPositions start")
  case None
  then show ?thesis by (simp add: onWalk_def startNode_def Let_def reachesWithDigs.start)
next
  case (Some spawnGoldIdx)
  from goldAtPosition_Some [OF Some] Some show ?thesis
    using reachesWithDigs.start [of level start]
    by (auto simp add: onWalk_def startNode_def Let_def bit_exp_iff)
qed

text \<open>
  Claim C2, amended.  When \<^verbatim>\<open>isFullySolvable\<close> holds, the level has a spawn and at least
  one gold, and every gold position is reachable from the spawn under some dig history, that
  is by a chain of moves of the movement model; with at most 16 gold so is one of the escape
  positions, and with more than 16 gold the basic validator's verdict is valid.
\<close>

theorem full_solve_reaches_all_gold:
  assumes "isFullySolvable level"
  shows "\<exists>spawn. getSpawnPosition level = Some spawn \<and> getGoldPositions level \<noteq> [] \<and>
     (\<forall>gold \<in> set (getGoldPositions level). \<exists>dug. reachesWithDigs level spawn gold dug) \<and>
     (length (getGoldPositions level) \<le> 16 \<longrightarrow>
        (\<exists>escape \<in> set (findEscapePositions level). \<exists>dug. reachesWithDigs level spawn escape dug)) \<and>
     (length (getGoldPositions level) > 16 \<longrightarrow> valid (validateLevel level))"
proof -
  from assms obtain spawn where sp: "getSpawnPosition level = Some spawn"
    by (cases "getSpawnPosition level") (simp_all add: isFullySolvable_def canSolveLevel_def)
  from assms sp have gold: "getGoldPositions level \<noteq> []"
    by (auto simp add: isFullySolvable_def canSolveLevel_def Let_def)
  from assms sp gold
  have many: "length (getGoldPositions level) > 16 \<longrightarrow> valid (validateLevel level)"
    by (auto simp add: isFullySolvable_def canSolveLevel_def Let_def)
  have walks: "(\<forall>gold \<in> set (getGoldPositions level). \<exists>dug. reachesWithDigs level spawn gold dug) \<and>
     (length (getGoldPositions level) \<le> 16 \<longrightarrow>
        (\<exists>escape \<in> set (findEscapePositions level). \<exists>dug. reachesWithDigs level spawn escape dug))"
  proof (cases "length (getGoldPositions level) > 16")
    case True
    with many have "valid (validateLevel level)" by simp
    with sp have "\<forall>gold \<in> set (getGoldPositions level).
        gold \<in> getReachablePositions level (fst spawn) (snd spawn) 50000"
      by (auto simp add: validateLevel_def Let_def filter_empty_conv)
    with getReachablePositions_onWalk [of _ level "fst spawn" "snd spawn" 50000] True
    show ?thesis by auto
  next
    case False
    let ?start = "\<lparr>sgrid = level,
        openSet = [startNode spawn (getGoldPositions level) (findEscapePositions level)],
        svisited = {}, siterations = 0\<rparr>"
    from assms sp gold False
    have "fst (solve_loop 100000 (getGoldPositions level) (findEscapePositions level) ?start)"
      by (auto simp add: isFullySolvable_def canSolveLevel_def canSolveLevel_run_def Let_def
          split: if_splits)
    from solve_loop_onWalk [OF this, of level spawn]
      startNode_onWalk [of level spawn "getGoldPositions level" "findEscapePositions level"]
    have "(\<forall>i < length (getGoldPositions level).
          \<exists>dug. reachesWithDigs level spawn (getGoldPositions level ! i) dug) \<and>
       (\<exists>escape \<in> set (findEscapePositions level). \<exists>dug. reachesWithDigs level spawn escape dug)"
      by simp
    then have "\<forall>gold \<in> set (getGoldPositions level). \<exists>dug. reachesWithDigs level spawn gold dug"
      and "\<exists>escape \<in> set (findEscapePositions level). \<exists>dug. reachesWithDigs level spawn escape dug"
      by (metis in_set_conv_nth, blast)
    then show ?thesis by blast
  qed
  with sp gold many show ?thesis by blast
qed

theorem full_solve_reaches_all_gold_witness:
  "isFullySolvable detourLevel \<and>
   (\<exists>dug. reachesWithDigs detourLevel (2, 1) (1, 4) dug) \<and>
   (1, 4) \<notin> getReachablePositions detourLevel 2 1 50000 \<and>
   (\<exists>escape \<in> {(3, 0), (5, 0)}. \<exists>dug. reachesWithDigs detourLevel (2, 1) escape dug)"
  using full_solve_reaches_all_gold [OF detour_solvable]
  by (simp add: detour_solvable detour_facts detour_reach)

section \<open>Witness levels for the structured results\<close>

definition sealedLevel :: Level where
  "sealedLevel = [[SOLID, SOLID], [SPAWN, GOLD], [SOLID, SOLID]]"

definition crowdedLevel :: Level where
  "crowdedLevel =
     [[SPAWN, GOLD, GOLD, GOLD, GOLD, GOLD, GOLD, GOLD, GOLD, GOLD, GOLD, GOLD, GOLD, GOLD, GOLD,
       GOLD, GOLD, GOLD],
      [SOLID, SOLID, SOLID, SOLID, SOLID, SOLID, SOLID, SOLID, SOLID, SOLID, SOLID, SOLID, SOLID,
       SOLID, SOLID, SOLID, SOLID, SOLID]]"

lemma sealed_facts:
  "getSpawnPosition sealedLevel = Some (0, 1)"
  "getGoldPositions sealedLevel = [(1, 1)]"
  "findEscapePositions sealedLevel = []"
  by (simp_all add: getSpawnPosition_def getGoldPositions_def findTiles_def findEscapePositions_def
      levelWidth_def getTile_def sealedLevel_def Let_def upt_0_2)

lemma crowded_facts:
  "getSpawnPosition crowdedLevel = Some (0, 0)"
  "length (getGoldPositions crowdedLevel) = 17"
  by (simp_all add: getSpawnPosition_def getGoldPositions_def findTiles_def crowdedLevel_def)

lemma unsupported_budget_two:
  "canSolveLevel_run unsupportedSpawnLevel 2 (0, 0) =
     (False, \<lparr>sgrid = unsupportedSpawnLevel,
              openSet = [\<lparr>nx = 1, ny = 1, collectedGold = 1, dugPositions = {}, gCost = 2,
                          hCost = 1, fCost = 3\<rparr>],
              svisited = {(0, 1, 1), (0, 0, 0)}, siterations = 2\<rparr>)"
  by (simp add: canSolveLevel_run_def startNode_def unsupported_facts unsupported_moves
      goldAtPosition_single solve_eval numeral_2_eq_2)

theorem canSolveLevel_structured_results_witness:
  "canSolveLevel [[EMPTY]] 100000 = \<lparr>solvable = False, reason = Some ''No spawn position''\<rparr> \<and>
   canSolveLevel [[SPAWN]] 100000 = \<lparr>solvable = False, reason = Some ''No gold in level''\<rparr> \<and>
   solvable (canSolveLevel crowdedLevel 100000) = valid (validateLevel crowdedLevel) \<and>
   canSolveLevel sealedLevel 100000 =
     \<lparr>solvable = False, reason = Some ''No escape positions at top of level''\<rparr> \<and>
   canSolveLevel unsupportedSpawnLevel 2 =
     \<lparr>solvable = False, reason = Some ''Search exceeded 2 iterations''\<rparr>"
proof -
  have a: "getSpawnPosition [[EMPTY]] = None"
    by (simp add: getSpawnPosition_def findTiles_def)
  have b: "getSpawnPosition [[SPAWN]] = Some (0, 0)" "getGoldPositions [[SPAWN]] = []"
    by (simp_all add: getSpawnPosition_def getGoldPositions_def findTiles_def)
  have e: "exceededReason 2 = ''Search exceeded 2 iterations''"
    by (simp add: exceededReason_def string_of_nat.simps)
  from canSolveLevel_structured_results [of "[[EMPTY]]" 100000] a
  have 1: "canSolveLevel [[EMPTY]] 100000 = \<lparr>solvable = False, reason = Some ''No spawn position''\<rparr>"
    by simp
  from canSolveLevel_structured_results [of "[[SPAWN]]" 100000] b
  have 2: "canSolveLevel [[SPAWN]] 100000 = \<lparr>solvable = False, reason = Some ''No gold in level''\<rparr>"
    by simp
  from canSolveLevel_structured_results [of crowdedLevel 100000] crowded_facts
  have 3: "solvable (canSolveLevel crowdedLevel 100000) = valid (validateLevel crowdedLevel)"
    by simp
  from canSolveLevel_structured_results [of sealedLevel 100000] sealed_facts
  have 4: "canSolveLevel sealedLevel 100000 =
     \<lparr>solvable = False, reason = Some ''No escape positions at top of level''\<rparr>"
    by simp
  from canSolveLevel_structured_results [of unsupportedSpawnLevel 2] unsupported_facts
    unsupported_budget_two e
  have 5: "canSolveLevel unsupportedSpawnLevel 2 =
     \<lparr>solvable = False, reason = Some ''Search exceeded 2 iterations''\<rparr>"
    by simp
  from 1 2 3 4 5 show ?thesis by simp
qed

section \<open>Identity of visited states\<close>

text \<open>
  For comparison, the breadth-first search as the data model words it, with the visited set
  keyed by the pair (position, dug set) instead of the position key of the code.  Everything
  else is as in \<open>reach_body\<close> and \<open>reach_loop\<close>.
\<close>

record ReachStateFullIdentity =
  fgrid :: Level
  fqueue :: "QueueEntry list"
  fvisited :: "(Position \<times> Position set) set"
  freachable :: "Position set"
  fiterations :: nat

definition reach_body_fullIdentity ::
  "ReachStateFullIdentity \<Rightarrow> QueueEntry \<Rightarrow> QueueEntry list \<Rightarrow> ReachStateFullIdentity" where
  "reach_body_fullIdentity s current rest =
     (let s1 = s\<lparr>fqueue := rest, fiterations := fiterations s + 1\<rparr>;
          key = ((qx current, qy current), qdug current)
      in if key \<in> fvisited s1 then s1
         else
           let s2 = s1\<lparr>fvisited := insert key (fvisited s1),
                       freachable := insert (qx current, qy current) (freachable s1)\<rparr>;
               moves = getValidMoves (fgrid s2) (qx current) (qy current) (qdug current);
               entries = map (\<lambda>move. \<lparr>qx = mx move, qy = my move,
                                 qdug = (case dig move of None \<Rightarrow> qdug current
                                         | Some d \<Rightarrow> insert d (qdug current))\<rparr>) moves
           in s2\<lparr>fqueue := fqueue s2 @
                  filter (\<lambda>entry. ((qx entry, qy entry), qdug entry) \<notin> fvisited s2) entries\<rparr>)"

lemma fiterations_reach_body_fullIdentity [simp]:
  "fiterations (reach_body_fullIdentity s current rest) = fiterations s + 1"
  by (simp add: reach_body_fullIdentity_def Let_def)

function reach_loop_fullIdentity :: "nat \<Rightarrow> ReachStateFullIdentity \<Rightarrow> ReachStateFullIdentity" where
  "reach_loop_fullIdentity maxIterations s =
     (case fqueue s of
        [] \<Rightarrow> s
      | current # rest \<Rightarrow>
          if fiterations s < maxIterations
          then reach_loop_fullIdentity maxIterations (reach_body_fullIdentity s current rest)
          else s)"
  by pat_completeness auto
termination
  by (relation "measure (\<lambda>(maxIterations, s). maxIterations - fiterations s)") auto

declare reach_loop_fullIdentity.simps [simp del]

definition getReachablePositions_fullIdentity :: "Level \<Rightarrow> int \<Rightarrow> int \<Rightarrow> nat \<Rightarrow> Position set" where
  "getReachablePositions_fullIdentity level startX startY maxIterations =
     freachable (reach_loop_fullIdentity maxIterations
       \<lparr>fgrid = level, fqueue = [\<lparr>qx = startX, qy = startY, qdug = {}\<rparr>], fvisited = {},
        freachable = {}, fiterations = 0\<rparr>)"

lemma reach_loop_fullIdentity_Nil:
  "reach_loop_fullIdentity n
     \<lparr>fgrid = g, fqueue = [], fvisited = v, freachable = r, fiterations = i\<rparr> =
   \<lparr>fgrid = g, fqueue = [], fvisited = v, freachable = r, fiterations = i\<rparr>"
  by (subst reach_loop_fullIdentity.simps) simp

lemma reach_loop_fullIdentity_Cons:
  "reach_loop_fullIdentity n
     \<lparr>fgrid = g, fqueue = c # rest, fvisited = v, freachable = r, fiterations = i\<rparr> =
   (if i < n
    then reach_loop_fullIdentity n
           (reach_body_fullIdentity
              \<lparr>fgrid = g, fqueue = c # rest, fvisited = v, freachable = r, fiterations = i\<rparr> c rest)
    else \<lparr>fgrid = g, fqueue = c # rest, fvisited = v, freachable = r, fiterations = i\<rparr>)"
  by (subst reach_loop_fullIdentity.simps) simp

text \<open>
  A spawn beside a pit wall: from \<open>(1, 0)\<close> the player can step left to \<open>(0, 0)\<close>, or
  dig the brick at \<open>(0, 1)\<close> and move to \<open>(0, 0)\<close> with that brick in the dug set.
\<close>

definition digLevel :: Level where
  "digLevel = [[EMPTY, SPAWN], [BRICK, SOLID], [SOLID, SOLID]]"

lemma dig_moves:
  "getValidMoves digLevel 1 0 {} =
     [\<lparr>mx = 0, my = 0, dig = None\<rparr>, \<lparr>mx = 0, my = 0, dig = Some (0, 1)\<rparr>]"
  "getValidMoves digLevel 0 0 {} = [\<lparr>mx = 1, my = 0, dig = None\<rparr>]"
  "getValidMoves digLevel 0 0 {(0, 1)} =
     [\<lparr>mx = 1, my = 0, dig = None\<rparr>, \<lparr>mx = 0, my = 1, dig = None\<rparr>]"
  "getValidMoves digLevel 1 0 {(0, 1)} = [\<lparr>mx = 0, my = 0, dig = None\<rparr>]"
  "getValidMoves digLevel 0 1 {(0, 1)} = []"
  by (simp_all add: move_eval digLevel_def)

lemma dig_reach: "getReachablePositions digLevel 1 0 50000 = {(0, 0), (1, 0)}"
  by (simp add: reach_eval dig_moves)

lemma dig_reach_fullIdentity:
  "getReachablePositions_fullIdentity digLevel 1 0 50000 = {(0, 1), (0, 0), (1, 0)}"
  by (simp add: getReachablePositions_fullIdentity_def reach_loop_fullIdentity_Cons
      reach_loop_fullIdentity_Nil reach_body_fullIdentity_def Let_def dig_moves) auto

text \<open>
  Against claim C4 as stated: after two iterations on this level the queue holds the entry
  at \<open>(0, 0)\<close> with dug set \<open>{(0, 1)}\<close>; only the entry with the empty dug set was
  expanded there, yet the new one is dropped on its position alone, and the cell \<open>(0, 1)\<close>
  that it would open is missing from the result.  Keyed by (position, dug set) the search
  finds it.
\<close>

theorem pruned_on_position_alone:
  "reach_body
     \<lparr>rgrid = digLevel, queue = [\<lparr>qx = 0, qy = 0, qdug = {(0, 1)}\<rparr>], rvisited = {(0, 0), (1, 0)},
      reachable = {(0, 0), (1, 0)}, riterations = 2\<rparr>
     \<lparr>qx = 0, qy = 0, qdug = {(0, 1)}\<rparr> [] =
     \<lparr>rgrid = digLevel, queue = [], rvisited = {(0, 0), (1, 0)},
      reachable = {(0, 0), (1, 0)}, riterations = 3\<rparr> \<and>
   (0, 1) \<notin> getReachablePositions digLevel 1 0 50000 \<and>
   (0, 1) \<in> getReachablePositions_fullIdentity digLevel 1 0 50000"
  by (simp add: dig_reach dig_reach_fullIdentity reach_body_def Let_def)

text \<open>
  Claim C4, amended.  The visited-set identity is the position alone in
  \<^verbatim>\<open>getReachablePositions\<close> and the triple (x, y, gold mask) in \<^verbatim>\<open>canSolveLevel\<close>; the
  dug set is carried by each state but is no part of either key.  So an entry whose
  position is visited is dropped whatever its dug set, and a node whose position and gold
  mask are visited is dropped whatever its dug set.
\<close>

theorem visited_identity_without_dug_set:
  "((qx current, qy current) \<in> rvisited s \<longrightarrow>
      reach_body s current rest = s\<lparr>queue := rest, riterations := riterations s + 1\<rparr>) \<and>
   stateKey node = (nx node, ny node, collectedGold node) \<and>
   stateKey (node\<lparr>dugPositions := dug\<rparr>) = stateKey node \<and>
   ((nx node, ny node, collectedGold node) \<in> svisited t \<longrightarrow>
      solve_expand goldPositions escapePositions t (node\<lparr>dugPositions := dug\<rparr>) = t)"
  by (simp add: reach_body_def solve_expand_def stateKey_def Let_def)

theorem visited_identity_without_dug_set_witness:
  "reach_body
     \<lparr>rgrid = digLevel, queue = [\<lparr>qx = 0, qy = 0, qdug = {(0, 1)}\<rparr>], rvisited = {(0, 0), (1, 0)},
      reachable = {(0, 0), (1, 0)}, riterations = 2\<rparr>
     \<lparr>qx = 0, qy = 0, qdug = {(5, 5)}\<rparr> [] =
     \<lparr>rgrid = digLevel, queue = [], rvisited = {(0, 0), (1, 0)},
      reachable = {(0, 0), (1, 0)}, riterations = 3\<rparr> \<and>
   solve_expand [(0, 1)] [(1, 0)]
     \<lparr>sgrid = unsupportedSpawnLevel, openSet = [], svisited = {(0, 1, 1), (0, 0, 0)},
      siterations = 2\<rparr>
     \<lparr>nx = 0, ny = 1, collectedGold = 1, dugPositions = {(7, 7)}, gCost = 5, hCost = 2,
      fCost = 7\<rparr> =
     \<lparr>sgrid = unsupportedSpawnLevel, openSet = [], svisited = {(0, 1, 1), (0, 0, 0)},
      siterations = 2\<rparr>"
  using visited_identity_without_dug_set
    [of "\<lparr>qx = 0, qy = 0, qdug = {(5, 5)}\<rparr>"
        "\<lparr>rgrid = digLevel, queue = [\<lparr>qx = 0, qy = 0, qdug = {(0, 1)}\<rparr>],
          rvisited = {(0, 0), (1, 0)}, reachable = {(0, 0), (1, 0)}, riterations = 2\<rparr>"
        "[]"
        "\<lparr>nx = 0, ny = 1, collectedGold = 1, dugPositions = {}, gCost = 5, hCost = 2, fCost = 7\<rparr>"
        "{(7, 7)}"
        "\<lparr>sgrid = unsupportedSpawnLevel, openSet = [], svisited = {(0, 1, 1), (0, 0, 0)},
          siterations = 2\<rparr>"
        "[(0, 1)]" "[(1, 0)]"]
  by simp

section \<open>Statistical structure generator (markovGenerator.ts)\<close>

text \<open>
  A source of random numbers is a \<^verbatim>\<open>() => number\<close> closure: it is modelled by the
  sequence of values its calls return, together with the count of calls made so far, which
  every function that draws returns updated.  Numbers are real numbers here, so sums and
  quotients of probabilities are exact.
\<close>

type_synonym Rng = "nat \<Rightarrow> real"

datatype JsError = TypeError

fun tileChar :: "TileChar \<Rightarrow> char" where
  "tileChar EMPTY = CHR ''.''"
| "tileChar BRICK = CHR ''b''"
| "tileChar SOLID = CHR ''B''"
| "tileChar LADDER = CHR ''#''"
| "tileChar ROPE = CHR ''-''"
| "tileChar GOLD = CHR ''G''"
| "tileChar ENEMY = CHR ''E''"
| "tileChar SPAWN = CHR ''M''"

record MarkovContext =
  above :: "TileChar option"
  left :: "TileChar option"
  aboveLeft :: "TileChar option"

type_synonym ContextKey = string

text \<open>
  A \<^verbatim>\<open>Map\<close> iterates in insertion order and \<^verbatim>\<open>set\<close> on a present key keeps its place:
  an association list with \<open>AList.update\<close>.
\<close>

type_synonym TransitionMap = "(ContextKey \<times> (TileChar \<times> real) list) list"

definition keyPart :: "TileChar option \<Rightarrow> char" where
  "keyPart t = (case t of None \<Rightarrow> CHR ''X'' | Some tile \<Rightarrow> tileChar tile)"

definition getContextKey :: "MarkovContext \<Rightarrow> ContextKey" where
  "getContextKey context =
     [keyPart (above context), CHR ''|'', keyPart (left context), CHR ''|'',
      keyPart (aboveLeft context)]"

definition getContext :: "Level \<Rightarrow> int \<Rightarrow> int \<Rightarrow> MarkovContext" where
  "getContext level x y =
     \<lparr>above = getTile level x (y - 1), left = getTile level (x - 1) y,
      aboveLeft = getTile level (x - 1) (y - 1)\<rparr>"

text \<open>
  The cumulative walk of \<^verbatim>\<open>sampleTile\<close>: the first tile whose running sum reaches \<open>r\<close>.  The
  running sum is exact here.  The doubles of the code round it, so a draw within rounding
  distance of a key's total can pass the last tile there and end in the first-tile branch
  (\<open>None\<close> below), where the exact walk still picks the last tile; nothing proved in this
  theory depends on which tile a draw selects.
\<close>

fun weightedPick :: "real \<Rightarrow> real \<Rightarrow> (TileChar \<times> real) list \<Rightarrow> TileChar option" where
  "weightedPick r cumulative [] = None"
| "weightedPick r cumulative (entry # rest) =
     (if r \<le> cumulative + snd entry then Some (fst entry)
      else weightedPick r (cumulative + snd entry) rest)"

definition sampleTile :: "TransitionMap \<Rightarrow> MarkovContext \<Rightarrow> Rng \<Rightarrow> nat \<Rightarrow> TileChar \<times> nat" where
  "sampleTile transitions context rng k =
     (let tileMap = (case map_of transitions (getContextKey context) of None \<Rightarrow> [] | Some m \<Rightarrow> m);
          r = rng k
      in if length tileMap = 0 then
           (if r < 0.6 then EMPTY
            else if r < 0.8 then BRICK
            else if r < 0.9 then LADDER
            else if r < 0.95 then SOLID
            else ROPE, k + 1)
         else
           (case weightedPick r 0 tileMap of
              Some tile \<Rightarrow> tile
            | None \<Rightarrow> fst (hd tileMap), k + 1))"

definition createEmptyLevel :: "nat \<Rightarrow> nat \<Rightarrow> TileChar \<Rightarrow> Level" where
  "createEmptyLevel width height fillTile = replicate height (replicate width fillTile)"

text \<open>\<^verbatim>\<open>level[y][x] = tile\<close> for a cell that exists.\<close>

definition setCell :: "Level \<Rightarrow> nat \<Rightarrow> nat \<Rightarrow> TileChar \<Rightarrow> Level" where
  "setCell level x y tile = level[y := (level ! y)[x := tile]]"

definition sampleCell :: "TransitionMap \<Rightarrow> Rng \<Rightarrow> nat \<times> nat \<Rightarrow> Level \<times> nat \<Rightarrow> Level \<times> nat" where
  "sampleCell transitions rng cell state =
     (let sampled = sampleTile transitions
                      (getContext (fst state) (int (fst cell)) (int (snd cell))) rng (snd state)
      in (setCell (fst state) (fst cell) (snd cell) (fst sampled), snd sampled))"

text \<open>The cells \<open>(x, y)\<close> of rows \<open>0 .. rows - 1\<close>, row by row, each row left to right.\<close>

definition rowMajor :: "nat \<Rightarrow> nat \<Rightarrow> (nat \<times> nat) list" where
  "rowMajor width rows = concat (map (\<lambda>y. map (\<lambda>x. (x, y)) [0..<width]) [0..<rows])"

text \<open>
  \<^verbatim>\<open>generateStructure\<close>.  Writing the floor reads \<^verbatim>\<open>level[height - 1]\<close>, which does not
  exist when \<open>height = 0\<close>: the assignment then throws as soon as the loop runs once.
\<close>

definition generateStructure ::
  "TransitionMap \<Rightarrow> nat \<Rightarrow> nat \<Rightarrow> Rng \<Rightarrow> nat \<Rightarrow> JsError + (Level \<times> nat)" where
  "generateStructure transitions width height rng k =
     (let level = createEmptyLevel width height EMPTY
      in if height = 0 \<and> 0 < width then Inl TypeError
         else
           let floored = fold (\<lambda>x lvl. setCell lvl x (height - 1) SOLID) [0..<width] level
           in Inr (fold (sampleCell transitions rng) (rowMajor width (height - 1)) (floored, k)))"

section \<open>The floor of a generated structure\<close>

lemma snd_sampleTile: "snd (sampleTile transitions context rng k) = k + 1"
  by (simp add: sampleTile_def Let_def)

lemma length_setCell [simp]: "length (setCell level x y tile) = length level"
  by (simp add: setCell_def)

lemma setCell_other_row: "j \<noteq> y \<Longrightarrow> setCell level x y tile ! j = level ! j"
  by (simp add: setCell_def)

lemma setCell_row_length: "length (setCell level x y tile ! j) = length (level ! j)"
  by (cases "j = y"; cases "y < length level") (simp_all add: setCell_def list_update_beyond)

lemma replicate_update_next:
  assumes "n < length row"
  shows "(replicate n t @ drop n row)[n := t] = replicate (Suc n) t @ drop (Suc n) row"
proof -
  from assms have d: "drop n row = row ! n # drop (Suc n) row"
    by (simp add: Cons_nth_drop_Suc)
  have "(replicate n t @ row ! n # drop (Suc n) row)[length (replicate n t) := t] =
      replicate n t @ t # drop (Suc n) row"
    by (rule list_update_length)
  then show ?thesis by (simp add: d replicate_app_Cons_same)
qed

lemma floor_row:
  "y < length level \<Longrightarrow> length (level ! y) = width \<Longrightarrow> n \<le> width \<Longrightarrow>
   fold (\<lambda>x lvl. setCell lvl x y SOLID) [0..<n] level =
     level[y := replicate n SOLID @ drop n (level ! y)]"
proof (induction n)
  case 0
  then show ?case by (simp add: list_update_same_conv)
next
  case (Suc n)
  then have "fold (\<lambda>x lvl. setCell lvl x y SOLID) [0..<Suc n] level =
      setCell (level[y := replicate n SOLID @ drop n (level ! y)]) n y SOLID"
    by simp
  also from Suc.prems have "\<dots> = level[y := (replicate n SOLID @ drop n (level ! y))[n := SOLID]]"
    by (simp add: setCell_def)
  also from Suc.prems have "(replicate n SOLID @ drop n (level ! y))[n := SOLID] =
      replicate (Suc n) SOLID @ drop (Suc n) (level ! y)"
    by (intro replicate_update_next) simp
  finally show ?case .
qed

lemma sampleCells_invariant:
  "fold (sampleCell transitions rng) cells (level, k) = (level', k') \<Longrightarrow>
   (\<forall>cell \<in> set cells. snd cell \<noteq> j) \<Longrightarrow>
   length level' = length level \<and> (\<forall>i. length (level' ! i) = length (level ! i)) \<and>
   level' ! j = level ! j \<and> k' = k + length cells"
proof (induction cells arbitrary: level k)
  case Nil
  then show ?case by simp
next
  case (Cons cell cells)
  obtain level1 k1 where step: "sampleCell transitions rng cell (level, k) = (level1, k1)"
    by (cases "sampleCell transitions rng cell (level, k)")
  then have l1: "level1 = setCell level (fst cell) (snd cell)
      (fst (sampleTile transitions (getContext level (int (fst cell)) (int (snd cell))) rng k))"
    and k1: "k1 = k + 1"
    by (simp_all add: sampleCell_def Let_def snd_sampleTile)
  from Cons.prems step have "fold (sampleCell transitions rng) cells (level1, k1) = (level', k')"
    by simp
  from Cons.IH [OF this] Cons.prems(2)
  have ih: "length level' = length level1 \<and> (\<forall>i. length (level' ! i) = length (level1 ! i)) \<and>
      level' ! j = level1 ! j \<and> k' = k1 + length cells"
    by simp
  from Cons.prems(2) have "snd cell \<noteq> j" by simp
  with l1 have "level1 ! j = level ! j" by (simp add: setCell_other_row)
  with ih l1 k1 show ?case by (simp add: setCell_row_length)
qed

lemma length_rowMajor: "length (rowMajor width rows) = width * rows"
  by (induction rows) (simp_all add: rowMajor_def)

lemma rowMajor_rows: "cell \<in> set (rowMajor width rows) \<Longrightarrow> snd cell < rows"
  by (auto simp add: rowMajor_def)

text \<open>
  Claim C3.  For every width and height of at least 1, every transition table and every
  random source, \<^verbatim>\<open>generateStructure\<close> returns a grid of \<open>height\<close> rows of \<open>width\<close> cells
  whose last row is Solid throughout, having drawn exactly one random number for each cell
  of rows \<open>0\<close> to \<open>height - 2\<close> and none for the last row.
\<close>

theorem generateStructure_floor:
  assumes "1 \<le> width" and "1 \<le> height"
  shows "\<exists>level k'. generateStructure transitions width height rng k = Inr (level, k') \<and>
     length level = height \<and> (\<forall>i < height. length (level ! i) = width) \<and>
     level ! (height - 1) = replicate width SOLID \<and>
     (\<forall>x < width. getTile level (int x) (int height - 1) = Some SOLID) \<and>
     k' = k + width * (height - 1)"
proof -
  let ?empty = "createEmptyLevel width height EMPTY"
  let ?floored = "fold (\<lambda>x lvl. setCell lvl x (height - 1) SOLID) [0..<width] ?empty"
  from assms have last: "height - 1 < length ?empty" "length (?empty ! (height - 1)) = width"
    by (simp_all add: createEmptyLevel_def)
  from last have "drop width (?empty ! (height - 1)) = []" by simp
  with floor_row [OF last order_refl]
  have floored: "?floored = ?empty[height - 1 := replicate width SOLID]"
    by simp
  obtain level k' where run:
    "fold (sampleCell transitions rng) (rowMajor width (height - 1)) (?floored, k) = (level, k')"
    by (cases "fold (sampleCell transitions rng) (rowMajor width (height - 1)) (?floored, k)")
  have "\<forall>cell \<in> set (rowMajor width (height - 1)). snd cell \<noteq> height - 1"
    using rowMajor_rows by fastforce
  from sampleCells_invariant [OF run this]
  have inv: "length level = length ?floored"
    "\<And>i. length (level ! i) = length (?floored ! i)"
    "level ! (height - 1) = ?floored ! (height - 1)"
    "k' = k + width * (height - 1)"
    by (simp_all add: length_rowMajor)
  from assms have len: "length level = height"
    unfolding inv(1) floored by (simp add: createEmptyLevel_def)
  from assms have rows: "\<forall>i < height. length (level ! i) = width"
    unfolding inv(2) floored by (simp add: createEmptyLevel_def nth_list_update)
  from assms have bottom: "level ! (height - 1) = replicate width SOLID"
    unfolding inv(3) floored by (simp add: createEmptyLevel_def)
  from assms len bottom
  have tiles: "\<forall>x < width. getTile level (int x) (int height - 1) = Some SOLID"
    by (auto simp add: getTile_def nat_diff_distrib')
  from assms run have "generateStructure transitions width height rng k = Inr (level, k')"
    by (simp add: generateStructure_def Let_def)
  with len rows bottom tiles inv(4) show ?thesis by blast
qed

theorem generateStructure_floor_witness:
  "(1::nat) \<le> 2 \<and>
   (\<exists>level k'. generateStructure [] 2 2 (\<lambda>i. 0) 0 = Inr (level, k') \<and> length level = 2 \<and>
      level ! 1 = [SOLID, SOLID] \<and> k' = 2)"
  using generateStructure_floor [of 2 2 "[]" "\<lambda>i. 0" 0]
  by (simp add: numeral_2_eq_2) blast

section \<open>Structure repair pass (postProcessStructure)\<close>

text \<open>\<^verbatim>\<open>processed[y]?.[x]\<close> for array indices: \<open>None\<close> where the cell does not exist.\<close>

definition cellAt :: "Level \<Rightarrow> nat \<Rightarrow> nat \<Rightarrow> TileChar option" where
  "cellAt level x y = getTile level (int x) (int y)"

text \<open>
  The body of the double loop for one cell.  \<open>tile\<close> is read from the working copy
  \<open>processed\<close> at the moment the scan reaches the cell; \<^verbatim>\<open>Math.random()\<close> is the source
  \<open>random\<close>, drawn only in the branches that call it.
\<close>

definition repairCell :: "nat \<Rightarrow> Rng \<Rightarrow> nat \<times> nat \<Rightarrow> Level \<times> nat \<Rightarrow> Level \<times> nat" where
  "repairCell height random cell state =
     (let x = fst cell; y = snd cell; processed = fst state; k = snd state;
          tile = cellAt processed x y;
          afterLadder =
            (if tile = Some LADDER \<and> int y < int height - 2 \<and>
                cellAt processed x (y + 1) = Some EMPTY
             then (if random k < 0.7 then setCell processed x (y + 1) LADDER
                   else setCell processed x y EMPTY, k + 1)
             else (processed, k))
      in if tile = Some ROPE \<and>
            (cellAt (fst afterLadder) x (y + 1) = Some BRICK \<or>
             cellAt (fst afterLadder) x (y + 1) = Some SOLID)
         then (setCell (fst afterLadder) x y
                 (if random (snd afterLadder) < 0.5 then EMPTY else LADDER), snd afterLadder + 1)
         else afterLadder)"

definition postProcessStructure :: "Level \<Rightarrow> Rng \<Rightarrow> nat \<Rightarrow> Level \<times> nat" where
  "postProcessStructure level random k =
     fold (repairCell (length level) random)
       (rowMajor (nat (levelWidth level)) (length level)) (cloneLevel level, k)"

section \<open>The repair pass follows its own extensions\<close>

text \<open>A ladder above the last two rows with Empty directly below it.\<close>

definition floating :: "nat \<Rightarrow> Level \<Rightarrow> nat \<Rightarrow> nat \<Rightarrow> bool" where
  "floating height level x y \<longleftrightarrow>
     int y < int height - 2 \<and> cellAt level x y = Some LADDER \<and>
     cellAt level x (y + 1) = Some EMPTY"

lemma cellAt_setCell:
  "cellAt (setCell level x y tile) x' y' =
     (if x' = x \<and> y' = y \<and> cellAt level x y \<noteq> None then Some tile
      else cellAt level x' y')"
  by (auto simp add: cellAt_def getTile_def setCell_def nth_list_update)

lemma repairCell_fixes:
  assumes "1 / 2 \<le> random k" and "random k < 7 / 10"
  shows "\<not> floating height (fst (repairCell height random (x, y) (level, k))) x y"
  using assms
  by (auto simp add: floating_def repairCell_def Let_def cellAt_setCell split: if_splits)

lemma repairCell_keeps:
  assumes "1 / 2 \<le> random k" and "random k < 7 / 10"
    and "(x', y') \<noteq> (x, y)" and "y' \<le> y" and "\<not> floating height level x' y'"
  shows "\<not> floating height (fst (repairCell height random (x, y) (level, k))) x' y'"
  using assms
  by (auto simp add: floating_def repairCell_def Let_def cellAt_setCell split: if_splits)

lemma snd_repairCell:
  "snd state \<le> snd (repairCell height random cell state) \<and>
   snd (repairCell height random cell state) \<le> snd state + 1"
  by (auto simp add: repairCell_def Let_def)

lemma repairCells_draws:
  "k \<le> snd (fold (repairCell height random) cells (level, k)) \<and>
   snd (fold (repairCell height random) cells (level, k)) \<le> k + length cells"
proof (induction cells arbitrary: level k)
  case Nil
  then show ?case by simp
next
  case (Cons cell cells)
  obtain level1 k1 where step: "repairCell height random cell (level, k) = (level1, k1)"
    by (cases "repairCell height random cell (level, k)")
  with snd_repairCell [of "(level, k)" height random cell] have "k \<le> k1" "k1 \<le> k + 1"
    by simp_all
  with Cons.IH [where level = level1 and k = k1] step show ?case by simp
qed

lemma repairCells_invariant:
  assumes draws: "\<forall>i. 1 / 2 \<le> random i \<and> random i < 7 / 10"
  shows "sorted_wrt (\<lambda>a b. snd a \<le> snd b) cells \<Longrightarrow>
   (\<forall>c \<in> S. \<forall>d \<in> set cells. snd c \<le> snd d) \<Longrightarrow>
   (\<forall>c \<in> S. \<not> floating height level (fst c) (snd c)) \<Longrightarrow>
   (\<forall>c \<in> S \<union> set cells.
      \<not> floating height (fst (fold (repairCell height random) cells (level, k))) (fst c) (snd c))"
proof (induction cells arbitrary: level k S)
  case Nil
  then show ?case by simp
next
  case (Cons cell cells)
  obtain level1 k1 where step: "repairCell height random cell (level, k) = (level1, k1)"
    by (cases "repairCell height random cell (level, k)")
  from draws have dk: "1 / 2 \<le> random k" "random k < 7 / 10" by simp_all
  have fixed: "\<not> floating height level1 (fst cell) (snd cell)"
    using repairCell_fixes [where random = random and k = k and height = height
        and x = "fst cell" and y = "snd cell" and level = level] dk step by simp
  have kept: "\<not> floating height level1 (fst c) (snd c)" if "c \<in> S" for c
  proof (cases "c = cell")
    case True
    with fixed show ?thesis by simp
  next
    case False
    then have ne: "(fst c, snd c) \<noteq> (fst cell, snd cell)" by (simp add: prod_eq_iff)
    from that Cons.prems(2) have le: "snd c \<le> snd cell" by simp
    from that Cons.prems(3) have ok: "\<not> floating height level (fst c) (snd c)" by simp
    from repairCell_keeps [where random = random and k = k and x = "fst cell" and y = "snd cell",
        OF dk ne le ok] step show ?thesis by simp
  qed
  have "\<forall>c \<in> insert cell S \<union> set cells.
      \<not> floating height (fst (fold (repairCell height random) cells (level1, k1))) (fst c) (snd c)"
  proof (rule Cons.IH)
    from Cons.prems(1) show "sorted_wrt (\<lambda>a b. snd a \<le> snd b) cells" by simp
    from Cons.prems(1,2) show "\<forall>c \<in> insert cell S. \<forall>d \<in> set cells. snd c \<le> snd d" by auto
    from fixed kept show "\<forall>c \<in> insert cell S. \<not> floating height level1 (fst c) (snd c)" by auto
  qed
  with step show ?case by simp
qed

lemma rowMajor_Suc:
  "rowMajor width (Suc rows) = rowMajor width rows @ map (\<lambda>x. (x, rows)) [0..<width]"
  by (simp add: rowMajor_def)

lemma rowMajor_sorted: "sorted_wrt (\<lambda>a b. snd a \<le> snd b) (rowMajor width rows)"
proof (induction rows)
  case 0
  then show ?case by (simp add: rowMajor_def)
next
  case (Suc rows)
  have "sorted_wrt (\<lambda>a b. snd a \<le> snd b) (map (\<lambda>x. (x, rows)) [0..<width])"
    by (simp add: sorted_wrt_map sorted_wrt_true)
  moreover have "\<forall>a \<in> set (rowMajor width rows). \<forall>b \<in> set (map (\<lambda>x. (x, rows)) [0..<width]).
      snd a \<le> snd b"
    using rowMajor_rows [of _ width rows] by fastforce
  ultimately show ?case using Suc by (simp add: rowMajor_Suc sorted_wrt_append)
qed

lemma set_rowMajor: "set (rowMajor width rows) = {(x, y). x < width \<and> y < rows}"
  by (auto simp add: rowMajor_def)

text \<open>
  Claim C6, amended.  The pass scans the working copy once, row by row, and draws at most
  one random number per cell; it is not repeated to a fixed point.  A ladder written as a
  downward extension into row \<open>y + 1\<close> is examined like any other cell when the scan
  reaches that row, and is extended again if the cell below it is Empty.  Hence, when every
  random decision extends the ladder (and turns a rope over Brick or Solid into a ladder),
  no scanned cell above the last two rows is left holding a ladder with Empty below.
\<close>

theorem repair_pass_cascades:
  assumes "\<forall>i. 1 / 2 \<le> random i \<and> random i < 7 / 10"
    and "x < nat (levelWidth level)" and "y < length level"
  shows "\<not> floating (length level) (fst (postProcessStructure level random k)) x y \<and>
     k \<le> snd (postProcessStructure level random k) \<and>
     snd (postProcessStructure level random k) \<le> k + nat (levelWidth level) * length level"
proof -
  have "\<forall>c \<in> {} \<union> set (rowMajor (nat (levelWidth level)) (length level)).
      \<not> floating (length level)
          (fst (fold (repairCell (length level) random)
                  (rowMajor (nat (levelWidth level)) (length level)) (cloneLevel level, k)))
          (fst c) (snd c)"
    by (rule repairCells_invariant [OF assms(1) rowMajor_sorted]) simp_all
  with assms(2,3) have "\<not> floating (length level) (fst (postProcessStructure level random k)) x y"
    by (simp add: postProcessStructure_def set_rowMajor)
  with repairCells_draws [of k "length level" random
      "rowMajor (nat (levelWidth level)) (length level)" "cloneLevel level"]
  show ?thesis by (simp add: postProcessStructure_def length_rowMajor)
qed

text \<open>
  Against claim C6 as stated: the input has one ladder, at the top of an empty column.  The
  pass draws three times and fills rows 1 to 3 with ladders: the ladders it wrote into rows
  1 and 2 were each examined in turn and extended further.
\<close>

definition floatingLadder :: Level where
  "floatingLadder = [[LADDER], [EMPTY], [EMPTY], [EMPTY], [SOLID]]"

theorem extension_examined_again:
  "postProcessStructure floatingLadder (\<lambda>i. 0) 0 =
     ([[LADDER], [LADDER], [LADDER], [LADDER], [SOLID]], 3)"
  by (simp add: postProcessStructure_def floatingLadder_def levelWidth_def cloneLevel_def
      rowMajor_def repairCell_def cellAt_def getTile_def setCell_def Let_def)

theorem repair_pass_cascades_witness:
  "(\<forall>i. 1 / 2 \<le> (\<lambda>i. 3 / 5 :: real) i \<and> (\<lambda>i. 3 / 5 :: real) i < 7 / 10) \<and>
   \<not> floating (length floatingLadder)
       (fst (postProcessStructure floatingLadder (\<lambda>i. 3 / 5) 0)) 0 1 \<and>
   snd (postProcessStructure floatingLadder (\<lambda>i. 3 / 5) 0) \<le> 5"
  using repair_pass_cascades [of "\<lambda>i. 3 / 5" 0 floatingLadder 1 0]
  by (simp add: floatingLadder_def levelWidth_def)

section \<open>Training the transition table\<close>

text \<open>
  The counting step of \<^verbatim>\<open>train\<close> for one cell: create the key's map if absent, then
  add one to the tile's count (\<^verbatim>\<open>(tileMap.get(tile) || 0) + 1\<close>).
\<close>

definition countCell :: "ContextKey \<Rightarrow> TileChar \<Rightarrow> TransitionMap \<Rightarrow> TransitionMap" where
  "countCell contextKey tile transitions =
     (let tileMap = (case map_of transitions contextKey of None \<Rightarrow> [] | Some m \<Rightarrow> m);
          count = (case map_of tileMap tile of None \<Rightarrow> 0 | Some c \<Rightarrow> c)
      in AList.update contextKey (AList.update tile (count + 1) tileMap) transitions)"

text \<open>The cells of a level in loop order; each row is scanned over its own length.\<close>

definition cellsOf :: "Level \<Rightarrow> (nat \<times> nat) list" where
  "cellsOf level = concat (map (\<lambda>y. map (\<lambda>x. (x, y)) [0..<length (level ! y)]) [0..<length level])"

definition observe :: "Level \<Rightarrow> nat \<times> nat \<Rightarrow> ContextKey \<times> TileChar" where
  "observe normalized cell =
     (getContextKey (getContext normalized (int (fst cell)) (int (snd cell))),
      normalized ! snd cell ! fst cell)"

definition trainLevel :: "Level \<Rightarrow> TransitionMap \<Rightarrow> TransitionMap" where
  "trainLevel level transitions =
     (let normalized = normalizeLevel level
      in fold (\<lambda>cell t. countCell (fst (observe normalized cell)) (snd (observe normalized cell)) t)
           (cellsOf normalized) transitions)"

text \<open>The second loop of \<^verbatim>\<open>train\<close>: divide every count of a key by the key's total.\<close>

definition normalizeCounts :: "(TileChar \<times> real) list \<Rightarrow> (TileChar \<times> real) list" where
  "normalizeCounts tileMap =
     (let total = sum_list (map snd tileMap)
      in map (\<lambda>entry. (fst entry, snd entry / total)) tileMap)"

text \<open>
  \<^verbatim>\<open>train(levels)\<close> starts with \<^verbatim>\<open>this.transitions.clear()\<close>: the table held before the
  call, \<open>transitions\<close>, is discarded.  No mirrored copy is made here.
\<close>

definition train :: "TransitionMap \<Rightarrow> Level list \<Rightarrow> TransitionMap" where
  "train transitions levels =
     (let cleared = []
      in map (\<lambda>entry. (fst entry, normalizeCounts (snd entry))) (fold trainLevel levels cleared))"

text \<open>
  The augmentation of the offline training script (\<^verbatim>\<open>flipLevelHorizontal\<close>,
  \<^verbatim>\<open>augmentLevels\<close>): each level followed by its mirror image.  The script applies it to its
  corpus before handing the result to its own trainer.
\<close>

definition flipLevelHorizontal :: "Level \<Rightarrow> Level" where
  "flipLevelHorizontal level = map rev level"

definition augmentLevels :: "Level list \<Rightarrow> Level list" where
  "augmentLevels levels = concat (map (\<lambda>level. [level, flipLevelHorizontal level]) levels)"

section \<open>What train counts\<close>

text \<open>
  The (context key, tile) pairs seen at the cells of the stripped levels, in order, and the
  probability stored in a table for a key and a tile.
\<close>

definition observations :: "Level list \<Rightarrow> (ContextKey \<times> TileChar) list" where
  "observations levels =
     concat (map (\<lambda>level. map (observe (normalizeLevel level)) (cellsOf (normalizeLevel level))) levels)"

definition lookupProbability :: "TransitionMap \<Rightarrow> ContextKey \<Rightarrow> TileChar \<Rightarrow> real option" where
  "lookupProbability transitions contextKey tile =
     (case map_of transitions contextKey of None \<Rightarrow> None | Some tileMap \<Rightarrow> map_of tileMap tile)"

definition countObservation :: "ContextKey \<times> TileChar \<Rightarrow> TransitionMap \<Rightarrow> TransitionMap" where
  "countObservation obs transitions = countCell (fst obs) (snd obs) transitions"

definition keyTotal :: "TransitionMap \<Rightarrow> ContextKey \<Rightarrow> real" where
  "keyTotal transitions contextKey =
     (case map_of transitions contextKey of None \<Rightarrow> 0 | Some m \<Rightarrow> sum_list (map snd m))"

lemma sum_update:
  "sum_list (map snd (AList.update t v m)) =
     sum_list (map snd m) - (case map_of m t of None \<Rightarrow> 0 | Some c \<Rightarrow> c) + (v::real)"
  by (induction m) (auto simp add: AList.update.simps)

lemma set_update_subset: "set (AList.update k v al) \<subseteq> insert (k, v) (set al)"
  by (induction al) (auto simp add: AList.update.simps)

lemma map_of_countCell:
  "map_of (countCell k t T) k' =
     (if k' = k
      then Some (AList.update t ((case map_of (case map_of T k of None \<Rightarrow> [] | Some m \<Rightarrow> m) t of
                                    None \<Rightarrow> 0 | Some c \<Rightarrow> c) + 1)
                   (case map_of T k of None \<Rightarrow> [] | Some m \<Rightarrow> m))
      else map_of T k')"
  by (simp add: countCell_def Let_def update_conv')

lemma keyTotal_countCell:
  "keyTotal (countCell k t T) k' = keyTotal T k' + (if k' = k then 1 else 0)"
  by (auto simp add: keyTotal_def map_of_countCell sum_update split: option.splits)

lemma lookup_countCell:
  "lookupProbability (countCell k t T) k' t' =
     (if k' = k \<and> t' = t
      then Some ((case lookupProbability T k t of None \<Rightarrow> 0 | Some c \<Rightarrow> c) + 1)
      else lookupProbability T k' t')"
  by (auto simp add: lookupProbability_def map_of_countCell update_conv' split: option.splits)

lemma trainLevel_fold:
  "trainLevel level T =
     fold countObservation
       (map (observe (normalizeLevel level)) (cellsOf (normalizeLevel level))) T"
proof -
  have "(\<lambda>cell t. countCell (fst (observe (normalizeLevel level) cell))
                        (snd (observe (normalizeLevel level) cell)) t) =
        countObservation \<circ> observe (normalizeLevel level)"
    by (intro ext) (simp add: countObservation_def)
  then show ?thesis by (simp add: trainLevel_def Let_def fold_map)
qed

lemma fold_trainLevel:
  "fold trainLevel levels T = fold countObservation (observations levels) T"
  by (induction levels arbitrary: T) (simp_all add: observations_def trainLevel_fold)

lemma fold_countObservation_Cons:
  "fold countObservation (ob # obs) T = fold countObservation obs (countCell (fst ob) (snd ob) T)"
  by (simp add: countObservation_def)

lemma keyTotal_fold:
  "keyTotal (fold countObservation obs T) k =
     keyTotal T k + real (length (filter (\<lambda>ob. fst ob = k) obs))"
  by (induction obs arbitrary: T)
     (simp_all only: fold_countObservation_Cons keyTotal_countCell, simp_all)

lemma lookup_fold:
  "lookupProbability (fold countObservation obs T) k t =
     (if count_list obs (k, t) = 0 then lookupProbability T k t
      else Some ((case lookupProbability T k t of None \<Rightarrow> 0 | Some c \<Rightarrow> c) +
                 real (count_list obs (k, t))))"
proof (induction obs arbitrary: T)
  case Nil
  then show ?case by simp
next
  case (Cons ob obs)
  obtain k' t' where ob: "ob = (k', t')" by (cases ob)
  show ?case
    unfolding fold_countObservation_Cons Cons.IH ob
    by (auto simp add: lookup_countCell)
qed

definition wellCounted :: "TransitionMap \<Rightarrow> bool" where
  "wellCounted T \<longleftrightarrow> (\<forall>entry \<in> set T. 1 \<le> sum_list (map snd (snd entry)))"

lemma wellCounted_countCell:
  assumes "wellCounted T"
  shows "wellCounted (countCell k t T)"
  unfolding wellCounted_def
proof
  fix entry
  assume "entry \<in> set (countCell k t T)"
  let ?m = "case map_of T k of None \<Rightarrow> [] | Some m \<Rightarrow> m"
  let ?c = "case map_of ?m t of None \<Rightarrow> 0 | Some c \<Rightarrow> c"
  from \<open>entry \<in> set (countCell k t T)\<close>
  have "entry = (k, AList.update t (?c + 1) ?m) \<or> entry \<in> set T"
    using set_update_subset [of k "AList.update t (?c + 1) ?m" T]
    by (auto simp add: countCell_def Let_def)
  then show "1 \<le> sum_list (map snd (snd entry))"
  proof
    assume e: "entry = (k, AList.update t (?c + 1) ?m)"
    have "0 \<le> sum_list (map snd ?m)"
    proof (cases "map_of T k")
      case None
      then show ?thesis by simp
    next
      case (Some m)
      then have "(k, m) \<in> set T" by (rule map_of_SomeD)
      with assms have "1 \<le> sum_list (map snd m)" by (auto simp add: wellCounted_def)
      with Some show ?thesis by simp
    qed
    with e show ?thesis by (simp add: sum_update)
  next
    assume "entry \<in> set T"
    with assms show ?thesis by (simp add: wellCounted_def)
  qed
qed

lemma wellCounted_fold: "wellCounted T \<Longrightarrow> wellCounted (fold countObservation obs T)"
proof (induction obs arbitrary: T)
  case Nil
  then show ?case by simp
next
  case (Cons ob obs)
  from Cons.prems have "wellCounted (countCell (fst ob) (snd ob) T)"
    by (rule wellCounted_countCell)
  from Cons.IH [OF this] show ?case by (simp only: fold_countObservation_Cons)
qed

lemma map_of_map_values:
  "map_of (map (\<lambda>entry. (fst entry, f (snd entry))) xs) k = map_option f (map_of xs k)"
  by (induction xs) auto

lemma map_of_normalizeCounts:
  "map_of (normalizeCounts m) t = map_option (\<lambda>c. c / sum_list (map snd m)) (map_of m t)"
  unfolding normalizeCounts_def Let_def
  by (rule map_of_map_values [where f = "\<lambda>c. c / sum_list (map snd m)"])

lemma map_of_normalized_entries:
  "map_of (map (\<lambda>entry. (fst entry, normalizeCounts (snd entry))) T) k =
     map_option normalizeCounts (map_of T k)"
  by (rule map_of_map_values)

lemma sum_list_divide:
  "sum_list (map (\<lambda>entry. snd entry / (d::real)) m) = sum_list (map snd m) / d"
  by (induction m) (simp_all add: add_divide_distrib)

lemma normalizeLevel_idem: "normalizeLevel (normalizeLevel level) = normalizeLevel level"
  by (simp add: normalizeLevel_def normalizeTile_def comp_def)

lemma trainLevel_normalized: "trainLevel (normalizeLevel level) = trainLevel level"
  by (rule ext) (simp add: trainLevel_def normalizeLevel_idem)

text \<open>
  Claim C5, amended.  \<^verbatim>\<open>train\<close> counts context-key and tile frequencies over exactly the
  grids it is given, after stripping entities (it makes no mirrored copy: mirroring is done
  by the offline script's \<^verbatim>\<open>augmentLevels\<close> before training).  The table it builds does
  not depend on the table held before the call, so two calls on the same corpus give the
  same table; stripping the corpus beforehand changes nothing; the probabilities stored
  under each key sum to 1; and the probability stored for a key and a tile is the number of
  cells seen with that key and tile divided by the number of cells seen with that key
  (absent when there is none).  Numbers are exact here, not floating point.
\<close>

theorem train_counts_given_grids:
  "train previous levels = train previous' levels \<and>
   train previous (map normalizeLevel levels) = train previous levels \<and>
   (\<forall>entry \<in> set (train previous levels). sum_list (map snd (snd entry)) = 1) \<and>
   lookupProbability (train previous levels) contextKey tile =
     (if (contextKey, tile) \<in> set (observations levels)
      then Some (real (count_list (observations levels) (contextKey, tile)) /
                 real (length (filter (\<lambda>ob. fst ob = contextKey) (observations levels))))
      else None)"
proof (intro conjI)
  let ?T = "fold countObservation (observations levels) []"
  show "train previous levels = train previous' levels"
    by (simp add: train_def)
  show "train previous (map normalizeLevel levels) = train previous levels"
    by (simp add: train_def fold_map comp_def trainLevel_normalized)
  have wc: "wellCounted ?T"
    by (rule wellCounted_fold) (simp add: wellCounted_def)
  show "\<forall>entry \<in> set (train previous levels). sum_list (map snd (snd entry)) = 1"
  proof
    fix entry
    assume "entry \<in> set (train previous levels)"
    then obtain e where e: "e \<in> set ?T" and entry: "entry = (fst e, normalizeCounts (snd e))"
      by (auto simp add: train_def fold_trainLevel)
    from wc e have "1 \<le> sum_list (map snd (snd e))" by (simp add: wellCounted_def)
    then have "sum_list (map snd (snd e)) \<noteq> 0" by simp
    with entry show "sum_list (map snd (snd entry)) = 1"
      by (simp add: normalizeCounts_def Let_def comp_def sum_list_divide)
  qed
  have total: "keyTotal ?T contextKey =
      real (length (filter (\<lambda>ob. fst ob = contextKey) (observations levels)))"
    unfolding keyTotal_fold by (simp add: keyTotal_def)
  have raw: "lookupProbability ?T contextKey tile =
      (if count_list (observations levels) (contextKey, tile) = 0 then None
       else Some (real (count_list (observations levels) (contextKey, tile))))"
    unfolding lookup_fold by (simp add: lookupProbability_def)
  have norm: "lookupProbability (train previous levels) contextKey tile =
      map_option (\<lambda>c. c / keyTotal ?T contextKey) (lookupProbability ?T contextKey tile)"
    by (cases "map_of ?T contextKey")
       (simp_all add: train_def fold_trainLevel lookupProbability_def map_of_normalized_entries
          map_of_normalizeCounts keyTotal_def)
  show "lookupProbability (train previous levels) contextKey tile =
     (if (contextKey, tile) \<in> set (observations levels)
      then Some (real (count_list (observations levels) (contextKey, tile)) /
                 real (length (filter (\<lambda>ob. fst ob = contextKey) (observations levels))))
      else None)"
    by (simp add: norm raw total count_list_0_iff)
qed

text \<open>
  Against claim C5 as stated: trained on a one-row grid, the table has no entry for the
  mirrored grid's contexts; training on the augmented corpus gives a different table.
\<close>

lemmas train_eval = train_def trainLevel_def normalizeLevel_def normalizeTile_def cellsOf_def
  observe_def getContext_def getContextKey_def getTile_def keyPart_def countCell_def
  normalizeCounts_def

theorem train_without_mirror:
  "train [] [[[BRICK, EMPTY]]] = [(''X|X|X'', [(BRICK, 1)]), (''X|b|X'', [(EMPTY, 1)])] \<and>
   train [] (augmentLevels [[[BRICK, EMPTY]]]) =
     [(''X|X|X'', [(BRICK, 1 / 2), (EMPTY, 1 / 2)]), (''X|b|X'', [(EMPTY, 1)]),
      (''X|.|X'', [(BRICK, 1)])] \<and>
   train [] [[[BRICK, EMPTY]]] \<noteq> train [] (augmentLevels [[[BRICK, EMPTY]]])"
  by (simp add: train_eval augmentLevels_def flipLevelHorizontal_def)

theorem train_counts_given_grids_witness:
  "train [(''X|X|X'', [(LADDER, 1)])] [[[GOLD, BRICK]]] =
     [(''X|X|X'', [(EMPTY, 1)]), (''X|.|X'', [(BRICK, 1)])] \<and>
   train [] (map normalizeLevel [[[GOLD, BRICK]]]) = train [] [[[GOLD, BRICK]]] \<and>
   sum_list (map snd (snd (''X|.|X'', [(BRICK, 1 :: real)]))) = 1 \<and>
   lookupProbability (train [(''X|X|X'', [(LADDER, 1)])] [[[GOLD, BRICK]]]) ''X|.|X'' BRICK = Some 1"
proof -
  have ev: "train [] [[[GOLD, BRICK]]] = [(''X|X|X'', [(EMPTY, 1)]), (''X|.|X'', [(BRICK, 1)])]"
    by (simp add: train_eval)
  have ob: "observations [[[GOLD, BRICK]]] = [(''X|X|X'', EMPTY), (''X|.|X'', BRICK)]"
    by (simp add: observations_def normalizeLevel_def normalizeTile_def cellsOf_def observe_def
        getContext_def getContextKey_def getTile_def keyPart_def)
  note inst = train_counts_given_grids [of "[(''X|X|X'', [(LADDER, 1)])]" "[[[GOLD, BRICK]]]" "[]"
      "''X|.|X''" BRICK]
  from inst have same: "train [(''X|X|X'', [(LADDER, 1)])] [[[GOLD, BRICK]]] = train [] [[[GOLD, BRICK]]]"
    by (rule conjunct1)
  from inst have strip: "train [(''X|X|X'', [(LADDER, 1)])] (map normalizeLevel [[[GOLD, BRICK]]]) =
      train [(''X|X|X'', [(LADDER, 1)])] [[[GOLD, BRICK]]]"
    by blast
  from inst have sums: "\<forall>entry \<in> set (train [(''X|X|X'', [(LADDER, 1)])] [[[GOLD, BRICK]]]).
      sum_list (map snd (snd entry)) = 1"
    by blast
  from inst [THEN conjunct2, THEN conjunct2, THEN conjunct2]
  have prob: "lookupProbability (train [(''X|X|X'', [(LADDER, 1)])] [[[GOLD, BRICK]]])
      ''X|.|X'' BRICK = Some 1"
    unfolding ob by simp
  from sums have "sum_list (map snd (snd (''X|.|X'', [(BRICK, 1 :: real)]))) = 1"
    unfolding same ev by simp
  with same ev prob strip show ?thesis
    by (simp add: train_def)
qed

section \<open>Entity tiles do not change movement\<close>

text \<open>
  Gold, enemy and spawn tiles have the movement properties of an empty cell, so two grids
  with the same stripped form (\<^verbatim>\<open>normalizeLevel\<close>) offer the same moves everywhere.
\<close>

lemma getTile_normalizeLevel:
  "getTile (normalizeLevel level) x y = map_option normalizeTile (getTile level x y)"
proof (cases "0 \<le> y \<and> y < int (length level)")
  case True
  then have "nat y < length level" by (auto simp add: nat_less_iff)
  then have "normalizeLevel level ! nat y = map normalizeTile (level ! nat y)"
    by (simp add: normalizeLevel_def)
  with True show ?thesis
    by (auto simp add: getTile_def normalizeLevel_def)
next
  case False
  then show ?thesis by (auto simp add: getTile_def normalizeLevel_def)
qed

lemma normalizeTile_cases:
  "normalizeTile t = LADDER \<longleftrightarrow> t = LADDER"
  "normalizeTile t = ROPE \<longleftrightarrow> t = ROPE"
  "normalizeTile t = BRICK \<longleftrightarrow> t = BRICK"
  "ground (TILE_PROPERTIES (normalizeTile t)) = ground (TILE_PROPERTIES t)"
  "passable (TILE_PROPERTIES (normalizeTile t)) = passable (TILE_PROPERTIES t)"
  by (cases t; simp add: normalizeTile_def)+

lemma getTile_normalizeLevel_eq:
  "getTile (normalizeLevel level) x y = Some LADDER \<longleftrightarrow> getTile level x y = Some LADDER"
  "getTile (normalizeLevel level) x y = Some ROPE \<longleftrightarrow> getTile level x y = Some ROPE"
  "getTile (normalizeLevel level) x y = Some BRICK \<longleftrightarrow> getTile level x y = Some BRICK"
  by (cases "getTile level x y"; simp add: getTile_normalizeLevel normalizeTile_cases)+

lemma ground_normalizeLevel:
  "(case getTile (normalizeLevel level) x y of None \<Rightarrow> False
    | Some b \<Rightarrow> ground (TILE_PROPERTIES b)) =
   (case getTile level x y of None \<Rightarrow> False | Some b \<Rightarrow> ground (TILE_PROPERTIES b))"
  by (cases "getTile level x y") (simp_all add: getTile_normalizeLevel normalizeTile_cases)

lemma hasGroundSupport_normalizeLevel:
  "hasGroundSupport (normalizeLevel level) x y = hasGroundSupport level x y"
  unfolding hasGroundSupport_def Let_def getTile_normalizeLevel_eq ground_normalizeLevel
  by (rule refl)

lemma isPassable_normalizeLevel:
  "isPassable (normalizeLevel level) x y dug = isPassable level x y dug"
  by (cases "getTile level x y")
     (simp_all add: isPassable_def getTile_normalizeLevel normalizeTile_cases)

lemma canDig_normalizeLevel: "canDig (normalizeLevel level) x y = canDig level x y"
  by (simp add: canDig_def getTile_normalizeLevel_eq)

lemma length_normalizeLevel: "length (normalizeLevel level) = length level"
  by (simp add: normalizeLevel_def)

lemma levelWidth_normalizeLevel: "levelWidth (normalizeLevel level) = levelWidth level"
  by (cases level) (simp_all add: levelWidth_def normalizeLevel_def)

lemma fallScan_normalizeLevel:
  "fallScan (normalizeLevel level) x dug landY = fallScan level x dug landY"
proof (induction level x dug landY rule: fallScan.induct)
  case (1 level x dug landY)
  show ?case
  proof (cases "landY < int (length level) \<and> isPassable level x landY dug \<and>
      \<not> (getTile level x landY = Some LADDER \<or> getTile level x landY = Some ROPE)")
    case True
    with "1.IH" have ih: "fallScan (normalizeLevel level) x dug (landY + 1) =
        fallScan level x dug (landY + 1)"
      by simp
    from True have "fallScan (normalizeLevel level) x dug landY =
        fallScan (normalizeLevel level) x dug (landY + 1)"
      by (subst fallScan.simps)
         (simp add: isPassable_normalizeLevel getTile_normalizeLevel_eq length_normalizeLevel Let_def)
    moreover from True have "fallScan level x dug landY = fallScan level x dug (landY + 1)"
      by (subst fallScan.simps) (simp add: Let_def)
    ultimately show ?thesis using ih by simp
  next
    case False
    have "fallScan (normalizeLevel level) x dug landY =
      (if landY < int (length level) then
        (if \<not> isPassable level x landY dug then [\<lparr>mx = x, my = landY - 1, dig = None\<rparr>]
         else if getTile level x landY = Some LADDER \<or> getTile level x landY = Some ROPE
         then [\<lparr>mx = x, my = landY, dig = None\<rparr>]
         else fallScan (normalizeLevel level) x dug (landY + 1))
       else [])"
      by (subst fallScan.simps)
         (simp add: isPassable_normalizeLevel getTile_normalizeLevel_eq length_normalizeLevel Let_def)
    moreover have "fallScan level x dug landY =
      (if landY < int (length level) then
        (if \<not> isPassable level x landY dug then [\<lparr>mx = x, my = landY - 1, dig = None\<rparr>]
         else if getTile level x landY = Some LADDER \<or> getTile level x landY = Some ROPE
         then [\<lparr>mx = x, my = landY, dig = None\<rparr>]
         else fallScan level x dug (landY + 1))
       else [])"
      by (subst fallScan.simps) (simp add: Let_def)
    ultimately show ?thesis using False by auto
  qed
qed

lemma getValidMoves_normalizeLevel:
  "getValidMoves (normalizeLevel level) x y dug = getValidMoves level x y dug"
  unfolding getValidMoves_def Let_def hasGroundSupport_normalizeLevel isPassable_normalizeLevel
    canDig_normalizeLevel fallScan_normalizeLevel levelWidth_normalizeLevel
    getTile_normalizeLevel_eq length_normalizeLevel
  by (rule refl)

lemma getValidMoves_same_physics:
  "normalizeLevel level = normalizeLevel level' \<Longrightarrow>
   getValidMoves level x y dug = getValidMoves level' x y dug"
  using getValidMoves_normalizeLevel [of level x y dug] getValidMoves_normalizeLevel [of level' x y dug]
  by simp

lemma reach_body_same_physics:
  assumes "normalizeLevel (rgrid s) = normalizeLevel level'"
  shows "reach_body (s\<lparr>rgrid := level'\<rparr>) current rest = (reach_body s current rest)\<lparr>rgrid := level'\<rparr>"
  using getValidMoves_same_physics [OF assms]
  by (simp add: reach_body_def Let_def)

lemma reach_loop_same_physics:
  "normalizeLevel (rgrid s) = normalizeLevel level' \<Longrightarrow>
   reach_loop n (s\<lparr>rgrid := level'\<rparr>) = (reach_loop n s)\<lparr>rgrid := level'\<rparr>"
proof (induction n s rule: reach_loop.induct)
  case (1 n s)
  show ?case
  proof (cases "queue s")
    case Nil
    then show ?thesis
      by (simp add: reach_loop.simps [of n s] reach_loop.simps [of n "s\<lparr>rgrid := level'\<rparr>"])
  next
    case (Cons current rest)
    show ?thesis
    proof (cases "riterations s < n")
      case False
      with Cons show ?thesis
        by (simp add: reach_loop.simps [of n s] reach_loop.simps [of n "s\<lparr>rgrid := level'\<rparr>"])
    next
      case True
      from "1.prems" have "normalizeLevel (rgrid (reach_body s current rest)) = normalizeLevel level'"
        by (simp add: rgrid_reach_body)
      from "1.IH" [OF Cons True this] Cons True "1.prems" show ?thesis
        by (simp add: reach_loop.simps [of n s] reach_loop.simps [of n "s\<lparr>rgrid := level'\<rparr>"]
            reach_body_same_physics)
    qed
  qed
qed

lemma getReachablePositions_same_physics:
  assumes "normalizeLevel level = normalizeLevel level'"
  shows "getReachablePositions level' x y n = getReachablePositions level x y n"
proof -
  let ?s = "\<lparr>rgrid = level, queue = [\<lparr>qx = x, qy = y, qdug = {}\<rparr>], rvisited = {}, reachable = {},
             riterations = 0\<rparr>"
  from assms have "normalizeLevel (rgrid ?s) = normalizeLevel level'" by simp
  from reach_loop_same_physics [OF this, of n] show ?thesis
    by (simp add: getReachablePositions_def getReachablePositions_run_def)
qed

section \<open>Entity placement (levelGenerator.ts, placeEntities)\<close>

text \<open>
  The two in-place sorts with the comparator \<^verbatim>\<open>() => rng() - 0.5\<close> are a parameter
  \<open>sortShuffle\<close>: the order they produce and the number of draws they make depend on the
  sorting algorithm of the engine.  It returns the reordered list and the number of draws made
  so far.  Reading \<^verbatim>\<open>level[height - 2]\<close> of a grid with fewer than two rows and reading a
  field of an undefined spawn raise \<^verbatim>\<open>TypeError\<close>.
\<close>

definition validCell :: "Level \<Rightarrow> nat \<times> nat \<Rightarrow> bool" where
  "validCell level cell =
     (let tile = cellAt level (fst cell) (snd cell);
          below = cellAt level (fst cell) (snd cell + 1);
          hasGround = (below = Some BRICK \<or> below = Some SOLID \<or> below = Some LADDER);
          isPassable = (tile = Some EMPTY \<or> tile = Some LADDER \<or> tile = Some ROPE)
      in isPassable \<and> (hasGround \<or> tile = Some LADDER))"

definition validPositions :: "Level \<Rightarrow> Position list" where
  "validPositions level =
     map (\<lambda>cell. (int (fst cell), int (snd cell)))
       (filter (validCell level) (rowMajor (nat (levelWidth level)) (length level - 1)))"

definition fallbackSpawn :: "Level \<Rightarrow> JsError + Position list" where
  "fallbackSpawn level =
     (let height = length level;
          xs = [1..<min 10 (nat (levelWidth level))]
      in if xs = [] then Inr []
         else if height < 2 then Inl TypeError
         else Inr (case find (\<lambda>x. cellAt level x (height - 2) = Some EMPTY) xs of
                     None \<Rightarrow> []
                   | Some x \<Rightarrow> [(int x, int (height - 2))]))"

definition chooseSpawn :: "Level \<Rightarrow> Rng \<Rightarrow> nat \<Rightarrow> JsError + (Position option \<times> nat)" where
  "chooseSpawn level rng k =
     (case (if validPositions level = [] then fallbackSpawn level else Inr (validPositions level)) of
        Inl e \<Rightarrow> Inl e
      | Inr validSpawnPositions \<Rightarrow>
          if length validSpawnPositions > 0 then
            (let sorted = sort_key (\<lambda>p. - snd p) validSpawnPositions;
                 spawnIdx = \<lfloor>rng k * real (min 5 (length sorted))\<rfloor>
             in if spawnIdx < 0 \<or> int (length sorted) \<le> spawnIdx then Inl TypeError
                else Inr (Some (sorted ! nat spawnIdx), k + 1))
          else Inr (None, k))"

definition placeTile :: "TileChar \<Rightarrow> Position \<Rightarrow> Level \<Rightarrow> Level" where
  "placeTile tile pos level =
     (if getTile level (fst pos) (snd pos) = Some EMPTY
      then setCell level (nat (fst pos)) (nat (snd pos)) tile
      else level)"

type_synonym SortShuffle = "Position list \<Rightarrow> Rng \<Rightarrow> nat \<Rightarrow> Position list \<times> nat"

definition placeEntities ::
  "SortShuffle \<Rightarrow> Level \<Rightarrow> nat \<Rightarrow> nat \<Rightarrow> Rng \<Rightarrow> nat \<Rightarrow> JsError + (Level \<times> nat)" where
  "placeEntities sortShuffle structure goldCount enemyCount rng k =
     (let level = cloneLevel structure;
          validGoldPositions = validPositions level
      in case chooseSpawn level rng k of
           Inl e \<Rightarrow> Inl e
         | Inr choice \<Rightarrow>
             (case fst choice of
                None \<Rightarrow> Inr (level, snd choice)
              | Some spawn \<Rightarrow>
                  let level1 = setCell level (nat (fst spawn)) (nat (snd spawn)) SPAWN;
                      filteredGoldPositions = filter (\<lambda>p. p \<noteq> spawn) validGoldPositions;
                      reach = getReachablePositions level1 (fst spawn) (snd spawn) 50000;
                      reachableGoldPositions = filter (\<lambda>p. p \<in> reach) filteredGoldPositions;
                      goldToPlace = min goldCount (length reachableGoldPositions);
                      shuffledGold = sortShuffle reachableGoldPositions rng (snd choice);
                      level2 = fold (placeTile GOLD) (take goldToPlace (fst shuffledGold)) level1;
                      usedPositions = insert spawn (set (take goldToPlace (fst shuffledGold)));
                      enemyPositions = filter (\<lambda>p. p \<notin> usedPositions) reachableGoldPositions;
                      shuffledEnemies = sortShuffle enemyPositions rng (snd shuffledGold);
                      enemiesToPlace = min enemyCount (length (fst shuffledEnemies));
                      level3 = fold (placeTile ENEMY)
                                 (take enemiesToPlace (fst shuffledEnemies)) level2
                  in Inr (level3, snd shuffledEnemies)))"

section \<open>Placed gold is reachable\<close>

lemma getTile_negative: "x < 0 \<or> y < 0 \<Longrightarrow> getTile level x y = None"
  by (auto simp add: getTile_def)

lemma getTile_setCell_nat:
  "getTile (setCell level px py tile) x y =
     (if x = int px \<and> y = int py \<and> getTile level x y \<noteq> None then Some tile
      else getTile level x y)"
proof (cases "x < 0 \<or> y < 0")
  case True
  then show ?thesis by (auto simp add: getTile_negative)
next
  case False
  then have "x = int (nat x)" "y = int (nat y)" by simp_all
  then obtain x' y' where xy: "x = int x'" "y = int y'" by blast
  from cellAt_setCell [of level px py tile x' y'] show ?thesis
    unfolding xy cellAt_def by auto
qed

lemma normalizeLevel_setCell:
  "normalizeLevel (setCell level x y tile) = setCell (normalizeLevel level) x y (normalizeTile tile)"
  by (cases "y < length level")
     (simp_all add: normalizeLevel_def setCell_def map_update list_update_beyond)

lemma normalizeLevel_placeTile:
  assumes "tile = GOLD \<or> tile = ENEMY"
  shows "normalizeLevel (placeTile tile pos level) = normalizeLevel level"
proof (cases "getTile level (fst pos) (snd pos) = Some EMPTY")
  case False
  then show ?thesis by (simp add: placeTile_def)
next
  case True
  then have b: "0 \<le> snd pos" "snd pos < int (length level)" "0 \<le> fst pos"
    "fst pos < int (length (level ! nat (snd pos)))"
    and v: "level ! nat (snd pos) ! nat (fst pos) = EMPTY"
    by (auto simp add: getTile_def split: if_splits)
  from b have iy: "nat (snd pos) < length level"
    and ix: "nat (fst pos) < length (level ! nat (snd pos))" by auto
  from assms have nt: "normalizeTile tile = EMPTY" by (auto simp add: normalizeTile_def)
  from iy ix v have "(map normalizeTile (level ! nat (snd pos)))[nat (fst pos) := EMPTY] =
      map normalizeTile (level ! nat (snd pos))"
    by (simp add: list_update_same_conv normalizeTile_def)
  with iy have "setCell (normalizeLevel level) (nat (fst pos)) (nat (snd pos)) EMPTY =
      normalizeLevel level"
    by (simp add: setCell_def normalizeLevel_def list_update_same_conv)
  with True nt show ?thesis by (simp add: placeTile_def normalizeLevel_setCell)
qed

lemma normalizeLevel_placeTiles:
  "tile = GOLD \<or> tile = ENEMY \<Longrightarrow>
   normalizeLevel (fold (placeTile tile) ps level) = normalizeLevel level"
  by (induction ps arbitrary: level) (simp_all add: normalizeLevel_placeTile)

lemma getTile_placeTile:
  "getTile (placeTile tile pos level) x y =
     (if (x, y) = pos \<and> getTile level x y = Some EMPTY then Some tile else getTile level x y)"
proof (cases "getTile level (fst pos) (snd pos) = Some EMPTY")
  case False
  then show ?thesis by (cases pos) (auto simp add: placeTile_def)
next
  case True
  then have "0 \<le> fst pos" "0 \<le> snd pos" by (auto simp add: getTile_def split: if_splits)
  with True show ?thesis
    by (cases pos) (auto simp add: placeTile_def getTile_setCell_nat)
qed

lemma gold_after_placing_gold:
  "getTile (fold (placeTile GOLD) ps level) x y = Some GOLD \<Longrightarrow>
   getTile level x y = Some GOLD \<or> (x, y) \<in> set ps"
proof (induction ps arbitrary: level)
  case Nil
  then show ?case by simp
next
  case (Cons p ps)
  from Cons.prems have "getTile (fold (placeTile GOLD) ps (placeTile GOLD p level)) x y = Some GOLD"
    by simp
  then have "getTile (placeTile GOLD p level) x y = Some GOLD \<or> (x, y) \<in> set ps"
    by (rule Cons.IH)
  then show ?case by (auto simp add: getTile_placeTile split: if_splits)
qed

lemma gold_after_placing_enemies:
  "getTile (fold (placeTile ENEMY) ps level) x y = Some GOLD \<Longrightarrow> getTile level x y = Some GOLD"
proof (induction ps arbitrary: level)
  case Nil
  then show ?case by simp
next
  case (Cons p ps)
  from Cons.prems have "getTile (fold (placeTile ENEMY) ps (placeTile ENEMY p level)) x y = Some GOLD"
    by simp
  then have "getTile (placeTile ENEMY p level) x y = Some GOLD" by (rule Cons.IH)
  then show ?case by (auto simp add: getTile_placeTile split: if_splits)
qed

text \<open>
  Claim C1.  When \<^verbatim>\<open>placeEntities\<close> has chosen a spawn, every Gold tile of its output that it
  placed (the structure had no Gold there) is a member of
  \<^verbatim>\<open>getReachablePositions(output, spawn.x, spawn.y)\<close>, whatever order the shuffles produce: the
  gold and enemy tiles written after the reachability check leave the reachable set as it
  was.
\<close>

theorem placed_gold_is_reachable:
  assumes shuffle: "\<forall>ps r n. set (fst (sortShuffle ps r n)) \<subseteq> set ps"
    and run: "placeEntities sortShuffle structure goldCount enemyCount rng k = Inr (out, k')"
    and spawn: "chooseSpawn (cloneLevel structure) rng k = Inr (Some spawn, k1)"
    and gold: "getTile out x y = Some GOLD"
    and placed: "getTile structure x y \<noteq> Some GOLD"
  shows "(x, y) \<in> getReachablePositions out (fst spawn) (snd spawn) 50000"
proof -
  let ?level = "cloneLevel structure"
  let ?level1 = "setCell ?level (nat (fst spawn)) (nat (snd spawn)) SPAWN"
  let ?reach = "getReachablePositions ?level1 (fst spawn) (snd spawn) 50000"
  let ?cands = "filter (\<lambda>p. p \<in> ?reach) (filter (\<lambda>p. p \<noteq> spawn) (validPositions ?level))"
  let ?shuffledGold = "sortShuffle ?cands rng k1"
  let ?golds = "take (min goldCount (length ?cands)) (fst ?shuffledGold)"
  let ?level2 = "fold (placeTile GOLD) ?golds ?level1"
  let ?enemyCands = "filter (\<lambda>p. p \<notin> insert spawn (set ?golds)) ?cands"
  let ?shuffledEnemies = "sortShuffle ?enemyCands rng (snd ?shuffledGold)"
  let ?enemies = "take (min enemyCount (length (fst ?shuffledEnemies))) (fst ?shuffledEnemies)"
  from run spawn have out: "out = fold (placeTile ENEMY) ?enemies ?level2"
    by (simp add: placeEntities_def Let_def)
  have same: "normalizeLevel out = normalizeLevel ?level1"
    unfolding out by (simp add: normalizeLevel_placeTiles)
  from gold have "getTile ?level2 x y = Some GOLD"
    unfolding out by (rule gold_after_placing_enemies)
  then have "getTile ?level1 x y = Some GOLD \<or> (x, y) \<in> set ?golds"
    by (rule gold_after_placing_gold)
  moreover have "getTile ?level1 x y \<noteq> Some GOLD"
    using placed by (simp add: getTile_setCell_nat cloneLevel_def)
  ultimately have "(x, y) \<in> set ?golds" by simp
  then have "(x, y) \<in> set (fst ?shuffledGold)" by (rule in_set_takeD)
  with shuffle have "(x, y) \<in> set ?cands" by blast
  then have "(x, y) \<in> ?reach" by simp
  with getReachablePositions_same_physics [OF same [symmetric]] show ?thesis by simp
qed

definition keepOrder :: SortShuffle where
  "keepOrder ps rng k = (ps, k)"

definition plainStructure :: Level where
  "plainStructure = [[EMPTY, EMPTY], [SOLID, SOLID]]"

definition spawnedStructure :: Level where
  "spawnedStructure = [[SPAWN, EMPTY], [SOLID, SOLID]]"

lemma spawned_moves:
  "getValidMoves spawnedStructure 0 0 {} = [\<lparr>mx = 1, my = 0, dig = None\<rparr>]"
  "getValidMoves spawnedStructure 1 0 {} = [\<lparr>mx = 0, my = 0, dig = None\<rparr>]"
  by (simp_all add: move_eval spawnedStructure_def)

lemma spawned_reach: "getReachablePositions spawnedStructure 0 0 50000 = {(1, 0), (0, 0)}"
  by (simp add: reach_eval spawned_moves)

lemma plain_validPositions: "validPositions (cloneLevel plainStructure) = [(0, 0), (1, 0)]"
  by (simp add: validPositions_def validCell_def rowMajor_def cellAt_def getTile_def
      levelWidth_def cloneLevel_def plainStructure_def Let_def upt_0_2)

lemma plain_chooseSpawn: "chooseSpawn (cloneLevel plainStructure) (\<lambda>i. 0) 0 = Inr (Some (0, 0), 1)"
  by (simp add: chooseSpawn_def plain_validPositions Let_def)

lemma plain_spawned:
  "setCell (cloneLevel plainStructure) 0 0 SPAWN = spawnedStructure"
  by (simp add: setCell_def cloneLevel_def plainStructure_def spawnedStructure_def)

lemma plain_placeEntities:
  "placeEntities keepOrder plainStructure 1 0 (\<lambda>i. 0) 0 = Inr ([[SPAWN, GOLD], [SOLID, SOLID]], 1)"
  by (simp add: placeEntities_def plain_chooseSpawn plain_validPositions plain_spawned
      spawned_reach keepOrder_def Let_def)
    (simp add: placeTile_def spawnedStructure_def getTile_def setCell_def)

theorem placed_gold_is_reachable_witness:
  "placeEntities keepOrder plainStructure 1 0 (\<lambda>i. 0) 0 = Inr ([[SPAWN, GOLD], [SOLID, SOLID]], 1) \<and>
   (1, 0) \<in> getReachablePositions [[SPAWN, GOLD], [SOLID, SOLID]] 0 0 50000"
proof -
  have shuffle: "\<forall>ps r n. set (fst (keepOrder ps r n)) \<subseteq> set ps"
    by (simp add: keepOrder_def)
  have gold: "getTile [[SPAWN, GOLD], [SOLID, SOLID]] 1 0 = Some GOLD"
    by (simp add: getTile_def)
  have placed: "getTile plainStructure 1 0 \<noteq> Some GOLD"
    by (simp add: getTile_def plainStructure_def)
  from placed_gold_is_reachable [OF shuffle plain_placeEntities plain_chooseSpawn gold placed]
    plain_placeEntities
  show ?thesis by simp
qed

section \<open>Generation orchestrator (levelGenerator.ts)\<close>

text \<open>
  The fields of a \<^verbatim>\<open>GeneratorConfig\<close> are optional; \<^verbatim>\<open>generateRaw\<close> fills in the defaults.
  \<^verbatim>\<open>postProcessStructure\<close> draws from \<^verbatim>\<open>Math.random\<close>, the source \<open>random\<close> with its own count
  of calls \<open>j\<close>, while structure generation and entity placement draw from \<open>rng\<close>.
\<close>

record GeneratorConfig =
  width :: "nat option"
  height :: "nat option"
  goldCount :: "nat option"
  enemyCount :: "nat option"

definition LEVEL_WIDTH :: nat where "LEVEL_WIDTH = 28"
definition LEVEL_HEIGHT :: nat where "LEVEL_HEIGHT = 16"

record Attempt =
  produced :: Level
  rngCalls :: nat
  randomCalls :: nat

definition generateRaw ::
  "TransitionMap \<Rightarrow> SortShuffle \<Rightarrow> GeneratorConfig \<Rightarrow> Rng \<Rightarrow> nat \<Rightarrow> Rng \<Rightarrow> nat \<Rightarrow>
   JsError + Attempt" where
  "generateRaw transitions sortShuffle config rng k random j =
     (let w = (case width config of None \<Rightarrow> LEVEL_WIDTH | Some n \<Rightarrow> n);
          h = (case height config of None \<Rightarrow> LEVEL_HEIGHT | Some n \<Rightarrow> n);
          golds = (case goldCount config of None \<Rightarrow> 5 | Some n \<Rightarrow> n);
          enemies = (case enemyCount config of None \<Rightarrow> 2 | Some n \<Rightarrow> n)
      in case generateStructure transitions w h rng k of
           Inl e \<Rightarrow> Inl e
         | Inr structure \<Rightarrow>
             (let repaired = postProcessStructure (fst structure) random j
              in (case placeEntities sortShuffle (fst repaired) golds enemies rng
                         (snd structure) of
                    Inl e \<Rightarrow> Inl e
                  | Inr placed \<Rightarrow>
                      Inr \<lparr>produced = fst placed, rngCalls = snd placed,
                           randomCalls = snd repaired\<rparr>)))"

text \<open>
  The variables \<^verbatim>\<open>bestLevel\<close>, \<^verbatim>\<open>bestValidation\<close>, \<^verbatim>\<open>bestScore\<close> and \<^verbatim>\<open>bestFullySolvable\<close> of
  \<^verbatim>\<open>generate\<close>; \<open>None\<close> is \<^verbatim>\<open>null\<close> for the level and the validation and \<^verbatim>\<open>-Infinity\<close> for the
  score.  The result record leaves out \<^verbatim>\<open>generationTimeMs\<close>, a reading of the clock.
\<close>

record BestSoFar =
  bestLevel :: "Level option"
  bestValidation :: "ValidationResult option"
  bestScore :: "int option"
  bestFullySolvable :: bool

record GenerationResult =
  level :: "Level option"
  validation :: "ValidationResult option"
  attempts :: nat
  fullySolvable :: bool

text \<open>
  The local \<^verbatim>\<open>fullySolvable\<close> of one attempt (the full solver runs only after basic validation
  passed), its \<^verbatim>\<open>score\<close>, the update of the best candidate and the success condition.
\<close>

definition attemptFullySolvable :: "Level \<Rightarrow> bool" where
  "attemptFullySolvable candidate =
     (if valid (validateLevel candidate) then isFullySolvable candidate else False)"

definition baseScore :: "Level \<Rightarrow> int" where
  "baseScore candidate =
     (let checked = validateLevel candidate
      in int (length (reachableGold checked)) - int (length (unreachableGold checked)) * 10 -
         int (length (issues checked)))"

definition attemptScore :: "Level \<Rightarrow> int" where
  "attemptScore candidate =
     (if attemptFullySolvable candidate then baseScore candidate + 50 else baseScore candidate)"

definition keepBest :: "Level \<Rightarrow> BestSoFar \<Rightarrow> BestSoFar" where
  "keepBest candidate best =
     (if (case bestScore best of None \<Rightarrow> True | Some b \<Rightarrow> attemptScore candidate > b)
      then \<lparr>bestLevel = Some candidate, bestValidation = Some (validateLevel candidate),
            bestScore = Some (attemptScore candidate),
            bestFullySolvable = attemptFullySolvable candidate\<rparr>
      else best)"

definition succeeds :: "bool \<Rightarrow> Level \<Rightarrow> bool" where
  "succeeds requireFullSolve candidate =
     (if requireFullSolve
      then valid (validateLevel candidate) \<and> attemptFullySolvable candidate
      else valid (validateLevel candidate))"

text \<open>
  The \<^verbatim>\<open>while (attempts < maxAttempts)\<close> loop: \<open>remaining\<close> is \<open>maxAttempts - attempts\<close> and
  \<open>made\<close> is \<^verbatim>\<open>attempts\<close>.
\<close>

fun generate_loop ::
  "TransitionMap \<Rightarrow> SortShuffle \<Rightarrow> GeneratorConfig \<Rightarrow> Rng \<Rightarrow> Rng \<Rightarrow> bool \<Rightarrow>
   nat \<Rightarrow> nat \<Rightarrow> BestSoFar \<Rightarrow> nat \<Rightarrow> nat \<Rightarrow> JsError + GenerationResult" where
  "generate_loop transitions sortShuffle config rng random requireFullSolve 0 made best k j =
     Inr \<lparr>level = bestLevel best, validation = bestValidation best, attempts = made,
          fullySolvable = bestFullySolvable best\<rparr>"
| "generate_loop transitions sortShuffle config rng random requireFullSolve (Suc remaining) made
     best k j =
     (case generateRaw transitions sortShuffle config rng k random j of
        Inl e \<Rightarrow> Inl e
      | Inr attempt \<Rightarrow>
          let better = keepBest (produced attempt) best
          in if succeeds requireFullSolve (produced attempt)
             then Inr \<lparr>level = Some (produced attempt),
                       validation = Some (validateLevel (produced attempt)),
                       attempts = made + 1,
                       fullySolvable = (if requireFullSolve then True
                                        else attemptFullySolvable (produced attempt))\<rparr>
             else generate_loop transitions sortShuffle config rng random requireFullSolve
                    remaining (made + 1) better (rngCalls attempt) (randomCalls attempt))"

definition generate ::
  "TransitionMap \<Rightarrow> SortShuffle \<Rightarrow> GeneratorConfig \<Rightarrow> nat \<Rightarrow> Rng \<Rightarrow> nat \<Rightarrow> Rng \<Rightarrow> nat \<Rightarrow>
   bool \<Rightarrow> JsError + GenerationResult" where
  "generate transitions sortShuffle config maxAttempts rng k random j requireFullSolve =
     generate_loop transitions sortShuffle config rng random requireFullSolve maxAttempts 0
       \<lparr>bestLevel = None, bestValidation = None, bestScore = None, bestFullySolvable = False\<rparr>
       k j"

text \<open>The levels that \<open>n\<close> successive calls of \<^verbatim>\<open>generateRaw\<close> produce.\<close>

fun candidates ::
  "TransitionMap \<Rightarrow> SortShuffle \<Rightarrow> GeneratorConfig \<Rightarrow> Rng \<Rightarrow> Rng \<Rightarrow> nat \<Rightarrow> nat \<Rightarrow> nat \<Rightarrow>
   Level list" where
  "candidates transitions sortShuffle config rng random 0 k j = []"
| "candidates transitions sortShuffle config rng random (Suc n) k j =
     (case generateRaw transitions sortShuffle config rng k random j of
        Inl e \<Rightarrow> []
      | Inr attempt \<Rightarrow>
          produced attempt #
          candidates transitions sortShuffle config rng random n (rngCalls attempt)
            (randomCalls attempt))"

section \<open>The orchestrator returns a level\<close>

lemma length_floor_fold:
  "length (fold (\<lambda>x lvl. setCell lvl x y tile) xs grid) = length grid"
  by (induction xs arbitrary: grid) simp_all

lemma generateStructure_rows:
  assumes "0 < h"
  shows "\<exists>structure. generateStructure transitions w h rng k = Inr structure \<and>
     length (fst structure) = h"
proof -
  let ?floored = "fold (\<lambda>x lvl. setCell lvl x (h - 1) SOLID) [0..<w] (createEmptyLevel w h EMPTY)"
  obtain sampled k' where run:
    "fold (sampleCell transitions rng) (rowMajor w (h - 1)) (?floored, k) = (sampled, k')"
    by (cases "fold (sampleCell transitions rng) (rowMajor w (h - 1)) (?floored, k)")
  have "\<forall>cell \<in> set (rowMajor w (h - 1)). snd cell \<noteq> h - 1"
    using rowMajor_rows by fastforce
  from sampleCells_invariant [OF run this] have "length sampled = h"
    by (simp add: length_floor_fold createEmptyLevel_def)
  with assms run show ?thesis by (simp add: generateStructure_def Let_def)
qed

lemma length_repairCell:
  "length (fst (repairCell h random cell state)) = length (fst state)"
  by (simp add: repairCell_def Let_def)

lemma length_repairCells:
  "length (fst (fold (repairCell h random) cells state)) = length (fst state)"
  by (induction cells arbitrary: state) (simp_all add: length_repairCell)

lemma length_postProcessStructure:
  "length (fst (postProcessStructure structure random j)) = length structure"
  by (simp add: postProcessStructure_def length_repairCells cloneLevel_def)

lemma spawnIdx_in_range:
  assumes "0 \<le> r" and "r < 1" and "0 < n"
  shows "0 \<le> \<lfloor>r * real (min 5 n)\<rfloor> \<and> \<lfloor>r * real (min 5 n)\<rfloor> < int n"
proof -
  from assms have m: "0 < real (min 5 n)" by simp
  with assms have "r * real (min 5 n) < real (min 5 n)" by simp
  then have "\<lfloor>r * real (min 5 n)\<rfloor> < int (min 5 n)" by (simp add: floor_less_iff)
  moreover from assms m have "0 \<le> r * real (min 5 n)" by simp
  ultimately show ?thesis by simp
qed

lemma fallbackSpawn_returns:
  "2 \<le> length structure \<Longrightarrow> \<exists>ps. fallbackSpawn structure = Inr ps"
  by (simp add: fallbackSpawn_def Let_def)

lemma chooseSpawn_returns:
  assumes "2 \<le> length structure" and "0 \<le> rng k" and "rng k < 1"
  shows "\<exists>choice. chooseSpawn structure rng k = Inr choice"
proof -
  from fallbackSpawn_returns [OF assms(1)]
  obtain ps where "(if validPositions structure = [] then fallbackSpawn structure
      else Inr (validPositions structure)) = Inr ps"
    by (cases "validPositions structure = []") auto
  note ps = this
  show ?thesis
  proof (cases "ps = []")
    case True
    with ps show ?thesis by (simp add: chooseSpawn_def Let_def)
  next
    case False
    then have "0 < length ps" by simp
    from spawnIdx_in_range [OF assms(2,3) this]
    have "\<not> (\<lfloor>rng k * real (min 5 (length ps))\<rfloor> < 0 \<or>
        int (length ps) \<le> \<lfloor>rng k * real (min 5 (length ps))\<rfloor>)"
      by simp
    with ps False show ?thesis by (simp add: chooseSpawn_def Let_def)
  qed
qed

lemma placeEntities_returns:
  assumes "2 \<le> length structure" and "0 \<le> rng k" and "rng k < 1"
  shows "\<exists>placed. placeEntities sortShuffle structure golds enemies rng k = Inr placed"
proof -
  from assms have "2 \<le> length (cloneLevel structure)" by (simp add: cloneLevel_def)
  with chooseSpawn_returns [of "cloneLevel structure" rng k] assms(2,3)
  obtain choice where "chooseSpawn (cloneLevel structure) rng k = Inr choice" by blast
  then show ?thesis
    by (cases "fst choice") (simp_all add: placeEntities_def Let_def)
qed

definition configHeight :: "GeneratorConfig \<Rightarrow> nat" where
  "configHeight config = (case height config of None \<Rightarrow> LEVEL_HEIGHT | Some n \<Rightarrow> n)"

lemma generateRaw_returns:
  assumes "2 \<le> configHeight config" and "\<forall>i. 0 \<le> rng i \<and> rng i < 1"
  shows "\<exists>attempt. generateRaw transitions sortShuffle config rng k random j = Inr attempt"
proof -
  let ?w = "case width config of None \<Rightarrow> LEVEL_WIDTH | Some n \<Rightarrow> n"
  from assms(1) have "0 < configHeight config" by simp
  from generateStructure_rows [OF this]
  obtain built where s: "generateStructure transitions ?w (configHeight config) rng k = Inr built"
    and len: "length (fst built) = configHeight config"
    by blast
  let ?repaired = "postProcessStructure (fst built) random j"
  from assms(1) len have "2 \<le> length (fst ?repaired)"
    by (simp add: length_postProcessStructure)
  with placeEntities_returns [of "fst ?repaired" rng "snd built"] assms(2)
  obtain placed where "placeEntities sortShuffle (fst ?repaired)
      (case goldCount config of None \<Rightarrow> 5 | Some n \<Rightarrow> n)
      (case enemyCount config of None \<Rightarrow> 2 | Some n \<Rightarrow> n) rng (snd built) = Inr placed"
    by blast
  with s show ?thesis
    by (simp add: generateRaw_def configHeight_def Let_def)
qed

lemma length_candidates:
  assumes "\<forall>k j. \<exists>attempt. generateRaw transitions sortShuffle config rng k random j = Inr attempt"
  shows "length (candidates transitions sortShuffle config rng random n k j) = n"
proof (induction n arbitrary: k j)
  case 0
  show ?case by simp
next
  case (Suc n)
  from assms obtain attempt
    where "generateRaw transitions sortShuffle config rng k random j = Inr attempt"
    by blast
  with Suc.IH show ?case by simp
qed

lemma generate_loop_result:
  assumes "\<forall>k j. \<exists>attempt. generateRaw transitions sortShuffle config rng k random j = Inr attempt"
  shows "generate_loop transitions sortShuffle config rng random requireFullSolve n made best k j =
     Inr (case find (succeeds requireFullSolve)
                 (candidates transitions sortShuffle config rng random n k j) of
            Some chosen \<Rightarrow>
              \<lparr>level = Some chosen, validation = Some (validateLevel chosen),
               attempts = made + length (takeWhile (\<lambda>c. \<not> succeeds requireFullSolve c)
                 (candidates transitions sortShuffle config rng random n k j)) + 1,
               fullySolvable = (if requireFullSolve then True else attemptFullySolvable chosen)\<rparr>
          | None \<Rightarrow>
              \<lparr>level = bestLevel (fold keepBest
                 (candidates transitions sortShuffle config rng random n k j) best),
               validation = bestValidation (fold keepBest
                 (candidates transitions sortShuffle config rng random n k j) best),
               attempts = made + n,
               fullySolvable = bestFullySolvable (fold keepBest
                 (candidates transitions sortShuffle config rng random n k j) best)\<rparr>)"
proof (induction n arbitrary: made best k j)
  case 0
  show ?case by simp
next
  case (Suc n)
  from assms obtain attempt
    where raw: "generateRaw transitions sortShuffle config rng k random j = Inr attempt"
    by blast
  show ?case
  proof (cases "succeeds requireFullSolve (produced attempt)")
    case True
    with raw show ?thesis by (simp add: Let_def)
  next
    case False
    with raw Suc.IH [of "made + 1" "keepBest (produced attempt) best" "rngCalls attempt"
        "randomCalls attempt"]
    show ?thesis by (simp add: Let_def split: option.split)
  qed
qed

definition tracks :: "Level list \<Rightarrow> BestSoFar \<Rightarrow> nat \<Rightarrow> bool" where
  "tracks cs best i \<longleftrightarrow>
     i < length cs \<and>
     best = \<lparr>bestLevel = Some (cs ! i), bestValidation = Some (validateLevel (cs ! i)),
             bestScore = Some (attemptScore (cs ! i)),
             bestFullySolvable = attemptFullySolvable (cs ! i)\<rparr> \<and>
     (\<forall>i' < length cs. attemptScore (cs ! i') \<le> attemptScore (cs ! i)) \<and>
     (\<forall>i' < i. attemptScore (cs ! i') < attemptScore (cs ! i))"

lemma tracks_first:
  "bestScore best = None \<Longrightarrow> tracks [c] (keepBest c best) 0"
  by (simp add: tracks_def keepBest_def)

lemma tracks_next:
  assumes "tracks cs best i"
  shows "\<exists>i'. tracks (cs @ [c]) (keepBest c best) i'"
proof (cases "attemptScore (cs ! i) < attemptScore c")
  case True
  with assms have "tracks (cs @ [c]) (keepBest c best) (length cs)"
    by (auto simp add: tracks_def keepBest_def nth_append less_Suc_eq)
  then show ?thesis ..
next
  case False
  with assms have "tracks (cs @ [c]) (keepBest c best) i"
    by (auto simp add: tracks_def keepBest_def nth_append less_Suc_eq)
  then show ?thesis ..
qed

lemma tracks_fold:
  "bestScore best = None \<Longrightarrow> cs \<noteq> [] \<Longrightarrow> \<exists>i. tracks cs (fold keepBest cs best) i"
proof (induction cs rule: rev_induct)
  case Nil
  then show ?case by simp
next
  case (snoc c cs)
  show ?case
  proof (cases "cs = []")
    case True
    with snoc.prems tracks_first [of best c] show ?thesis by auto
  next
    case False
    with snoc obtain i where "tracks cs (fold keepBest cs best) i" by blast
    from tracks_next [OF this, of c] show ?thesis by simp
  qed
qed

lemma find_first_index:
  "find P cs = Some chosen \<Longrightarrow>
   length (takeWhile (\<lambda>c. \<not> P c) cs) < length cs \<and>
   chosen = cs ! length (takeWhile (\<lambda>c. \<not> P c) cs) \<and> P chosen \<and>
   (\<forall>i' < length (takeWhile (\<lambda>c. \<not> P c) cs). \<not> P (cs ! i'))"
proof (induction cs)
  case Nil
  then show ?case by simp
next
  case (Cons c cs)
  show ?case
  proof (cases "P c")
    case True
    with Cons.prems show ?thesis by simp
  next
    case False
    with Cons show ?thesis by (auto simp add: nth_Cons')
  qed
qed

lemma find_none_index: "find P cs = None \<Longrightarrow> \<forall>i' < length cs. \<not> P (cs ! i')"
  by (simp add: find_None_iff)

lemma unsuccessful_not_fullySolvable:
  "\<not> succeeds requireFullSolve c \<Longrightarrow> \<not> attemptFullySolvable c"
  by (auto simp add: succeeds_def attemptFullySolvable_def split: if_splits)

text \<open>
  Claim C9, amended.  For a configuration of at least two rows, a random source with values in
  \<open>[0, 1)\<close> and \<open>maxAttempts \<ge> 1\<close>, \<^verbatim>\<open>generate\<close> returns a result and does not throw; the level of the
  result is one of the generated candidates, annotated with its own validation, and the flag
  \<^verbatim>\<open>fullySolvable\<close> says whether it is valid and fully solvable.  Either it is the first candidate
  that meets the success criterion (valid, or valid and fully solvable when
  \<^verbatim>\<open>requireFullSolve\<close> is set) and \<^verbatim>\<open>attempts\<close> is its number, or no candidate meets it,
  \<^verbatim>\<open>attempts\<close> is \<open>maxAttempts\<close> and the level is the first candidate of maximal score.  The score
  of a candidate is its reachable gold minus ten times its unreachable gold minus its issues,
  plus 50 when it is valid and fully solvable; in the second case no candidate is, so the
  bonus never decides which level is returned.  The score the loop computes is this score.
\<close>

theorem generate_returns_first_success_or_best:
  fixes transitions sortShuffle config rng random maxAttempts k j requireFullSolve
  defines "cs \<equiv> candidates transitions sortShuffle config rng random maxAttempts k j"
    and "meets \<equiv> \<lambda>c. if requireFullSolve
                      then valid (validateLevel c) \<and> isFullySolvable c
                      else valid (validateLevel c)"
    and "score \<equiv> \<lambda>c. int (length (reachableGold (validateLevel c))) -
                      10 * int (length (unreachableGold (validateLevel c))) -
                      int (length (issues (validateLevel c))) +
                      (if valid (validateLevel c) \<and> isFullySolvable c then 50 else 0)"
  assumes "2 \<le> configHeight config" and "\<forall>i. 0 \<le> rng i \<and> rng i < 1" and "1 \<le> maxAttempts"
  shows "(\<exists>result i.
     generate transitions sortShuffle config maxAttempts rng k random j requireFullSolve =
       Inr result \<and>
     length cs = maxAttempts \<and> i < maxAttempts \<and>
     level result = Some (cs ! i) \<and> validation result = Some (validateLevel (cs ! i)) \<and>
     fullySolvable result = (valid (validateLevel (cs ! i)) \<and> isFullySolvable (cs ! i)) \<and>
     ((meets (cs ! i) \<and> (\<forall>i' < i. \<not> meets (cs ! i')) \<and> attempts result = i + 1) \<or>
      ((\<forall>i' < maxAttempts. \<not> meets (cs ! i') \<and>
          \<not> (valid (validateLevel (cs ! i')) \<and> isFullySolvable (cs ! i'))) \<and>
       attempts result = maxAttempts \<and>
       (\<forall>i' < maxAttempts. score (cs ! i') \<le> score (cs ! i)) \<and>
       (\<forall>i' < i. score (cs ! i') < score (cs ! i))))) \<and>
   (\<forall>c. attemptScore c = score c)"
proof -
  let ?init = "\<lparr>bestLevel = None, bestValidation = None, bestScore = None,
                bestFullySolvable = False\<rparr>"
  have meets: "\<And>c. succeeds requireFullSolve c = meets c"
    by (auto simp add: succeeds_def meets_def attemptFullySolvable_def)
  have full: "\<And>c. attemptFullySolvable c = (valid (validateLevel c) \<and> isFullySolvable c)"
    by (auto simp add: attemptFullySolvable_def)
  have score: "\<And>c. attemptScore c = score c"
    by (simp add: attemptScore_def baseScore_def score_def full Let_def)
  from generateRaw_returns [OF assms(4,5)]
  have total: "\<forall>k j. \<exists>attempt.
      generateRaw transitions sortShuffle config rng k random j = Inr attempt"
    by blast
  have len: "length cs = maxAttempts"
    unfolding cs_def by (rule length_candidates [OF total])
  note run = generate_loop_result [OF total, of requireFullSolve maxAttempts 0 ?init k j,
      folded cs_def generate_def]
  have "\<exists>result i.
     generate transitions sortShuffle config maxAttempts rng k random j requireFullSolve =
       Inr result \<and>
     length cs = maxAttempts \<and> i < maxAttempts \<and>
     level result = Some (cs ! i) \<and> validation result = Some (validateLevel (cs ! i)) \<and>
     fullySolvable result = attemptFullySolvable (cs ! i) \<and>
     ((succeeds requireFullSolve (cs ! i) \<and>
       (\<forall>i' < i. \<not> succeeds requireFullSolve (cs ! i')) \<and> attempts result = i + 1) \<or>
      ((\<forall>i' < maxAttempts. \<not> succeeds requireFullSolve (cs ! i') \<and>
          \<not> attemptFullySolvable (cs ! i')) \<and>
       attempts result = maxAttempts \<and>
       (\<forall>i' < maxAttempts. attemptScore (cs ! i') \<le> attemptScore (cs ! i)) \<and>
       (\<forall>i' < i. attemptScore (cs ! i') < attemptScore (cs ! i))))"
  proof (cases "find (succeeds requireFullSolve) cs")
    case (Some chosen)
    let ?i = "length (takeWhile (\<lambda>c. \<not> succeeds requireFullSolve c) cs)"
    from find_first_index [OF Some]
    have i: "?i < length cs" "chosen = cs ! ?i" "succeeds requireFullSolve chosen"
      "\<forall>i' < ?i. \<not> succeeds requireFullSolve (cs ! i')"
      by blast+
    from i(3) have "(if requireFullSolve then True else attemptFullySolvable chosen) =
        attemptFullySolvable chosen"
      by (simp add: succeeds_def split: if_splits)
    with run Some i len show ?thesis by auto
  next
    case None
    from assms(6) len have "cs \<noteq> []" by auto
    with tracks_fold [of ?init cs] obtain i where t: "tracks cs (fold keepBest cs ?init) i"
      by auto
    from find_none_index [OF None] len
    have fail: "\<forall>i' < maxAttempts. \<not> succeeds requireFullSolve (cs ! i')" by simp
    then have nofull: "\<forall>i' < maxAttempts. \<not> attemptFullySolvable (cs ! i')"
      by (auto dest: unsuccessful_not_fullySolvable)
    from t have "i < length cs"
      and "fold keepBest cs ?init =
        \<lparr>bestLevel = Some (cs ! i), bestValidation = Some (validateLevel (cs ! i)),
         bestScore = Some (attemptScore (cs ! i)),
         bestFullySolvable = attemptFullySolvable (cs ! i)\<rparr>"
      and "\<forall>i' < length cs. attemptScore (cs ! i') \<le> attemptScore (cs ! i)"
      and "\<forall>i' < i. attemptScore (cs ! i') < attemptScore (cs ! i)"
      by (simp_all add: tracks_def)
    with run None len fail nofull show ?thesis by auto
  qed
  then show ?thesis unfolding meets full score using score by blast
qed

text \<open>
  A run on a grid of two rows and two columns with the untrained table.  Draws of \<open>0\<close> make
  a cell Empty, draws of \<open>0.92\<close> make it Solid; a top row of Solid leaves no place for the
  spawn, an Empty one receives the spawn and one gold.
\<close>

definition smallConfig :: GeneratorConfig where
  "smallConfig = \<lparr>width = Some 2, height = Some 2, goldCount = Some 1, enemyCount = Some 0\<rparr>"

definition solidStructure :: Level where
  "solidStructure = [[SOLID, SOLID], [SOLID, SOLID]]"

definition goldenLevel :: Level where
  "goldenLevel = [[SPAWN, GOLD], [SOLID, SOLID]]"

definition solidThenEmpty :: Rng where
  "solidThenEmpty i = (if i < 2 then 23 / 25 else 0)"

definition emptyThenSolid :: Rng where
  "emptyThenSolid i = (if i < 3 then 0 else 23 / 25)"

lemmas structure_eval = generateStructure_def createEmptyLevel_def rowMajor_def sampleCell_def
  sampleTile_def setCell_def Let_def upt_0_2 numeral_2_eq_2

lemma small_structures:
  "generateStructure [] 2 2 solidThenEmpty 0 = Inr (solidStructure, 2)"
  "generateStructure [] 2 2 solidThenEmpty 2 = Inr (plainStructure, 4)"
  "generateStructure [] 2 2 emptyThenSolid 0 = Inr (plainStructure, 2)"
  "generateStructure [] 2 2 emptyThenSolid 3 = Inr (solidStructure, 5)"
  by (simp_all add: structure_eval solidThenEmpty_def emptyThenSolid_def plainStructure_def
      solidStructure_def)


lemma plain_repaired: "postProcessStructure plainStructure random j = (plainStructure, j)"
  by (simp add: postProcessStructure_def repairCell_def cellAt_def getTile_def rowMajor_def
      levelWidth_def cloneLevel_def plainStructure_def Let_def upt_0_2 numeral_2_eq_2)


lemma solid_repaired: "postProcessStructure solidStructure random j = (solidStructure, j)"
  by (simp add: postProcessStructure_def repairCell_def cellAt_def getTile_def rowMajor_def
      levelWidth_def cloneLevel_def solidStructure_def Let_def upt_0_2 numeral_2_eq_2)


lemma plain_placed:
  "rng k = 0 \<Longrightarrow> placeEntities keepOrder plainStructure 1 0 rng k = Inr (goldenLevel, k + 1)"
  by (simp add: placeEntities_def chooseSpawn_def plain_validPositions plain_spawned
      spawned_reach keepOrder_def Let_def)
    (simp add: placeTile_def spawnedStructure_def goldenLevel_def getTile_def setCell_def)


lemma upt_1_2: "[Suc 0..<2] = [Suc 0]"
  by (simp add: numeral_2_eq_2)

lemma solid_clone: "cloneLevel solidStructure = solidStructure"
  by (simp add: cloneLevel_def solidStructure_def)

lemma solid_validPositions: "validPositions solidStructure = []"
  by (simp add: validPositions_def validCell_def rowMajor_def cellAt_def getTile_def
      levelWidth_def solidStructure_def Let_def upt_0_2)

lemma solid_fallbackSpawn: "fallbackSpawn solidStructure = Inr []"
  by (simp add: fallbackSpawn_def cellAt_def getTile_def levelWidth_def
      solidStructure_def Let_def upt_1_2)

lemma solid_placed:
  "placeEntities keepOrder solidStructure golds enemies rng k = Inr (solidStructure, k)"
  by (simp add: placeEntities_def chooseSpawn_def solid_clone solid_validPositions
      solid_fallbackSpawn Let_def)

lemma small_attempts:
  "generateRaw [] keepOrder smallConfig solidThenEmpty 0 random j =
     Inr \<lparr>produced = solidStructure, rngCalls = 2, randomCalls = j\<rparr>"
  "generateRaw [] keepOrder smallConfig solidThenEmpty 2 random j =
     Inr \<lparr>produced = goldenLevel, rngCalls = 5, randomCalls = j\<rparr>"
  "generateRaw [] keepOrder smallConfig emptyThenSolid 0 random j =
     Inr \<lparr>produced = goldenLevel, rngCalls = 3, randomCalls = j\<rparr>"
  "generateRaw [] keepOrder smallConfig emptyThenSolid 3 random j =
     Inr \<lparr>produced = solidStructure, rngCalls = 5, randomCalls = j\<rparr>"
  unfolding generateRaw_def smallConfig_def
  by (simp_all add: small_structures plain_repaired solid_repaired solid_placed
      plain_placed [of solidThenEmpty 4] plain_placed [of emptyThenSolid 2]
      solidThenEmpty_def emptyThenSolid_def Let_def del: One_nat_def)


lemma golden_moves:
  "getValidMoves goldenLevel 0 0 {} = [\<lparr>mx = 1, my = 0, dig = None\<rparr>]"
  "getValidMoves goldenLevel 1 0 {} = [\<lparr>mx = 0, my = 0, dig = None\<rparr>]"
  by (simp_all add: move_eval goldenLevel_def)


lemma golden_reach: "getReachablePositions goldenLevel 0 0 50000 = {(1, 0), (0, 0)}"
  by (simp add: reach_eval golden_moves)


lemma golden_facts:
  "getSpawnPosition goldenLevel = Some (0, 0)"
  "getGoldPositions goldenLevel = [(1, 0)]"
  "findEscapePositions goldenLevel = []"
  "hasGroundSupport goldenLevel 0 0"
  by (simp_all add: getSpawnPosition_def getGoldPositions_def findTiles_def findEscapePositions_def
      levelWidth_def hasGroundSupport_def getTile_def goldenLevel_def Let_def upt_0_2)


lemma golden_checked:
  "validateLevel goldenLevel =
     \<lparr>valid = True, reachableGold = [(1, 0)], unreachableGold = [],
      spawnPosition = Some (0, 0), issues = []\<rparr>"
  "\<not> isFullySolvable goldenLevel"
  by (simp_all add: validateLevel_def isFullySolvable_def canSolveLevel_def golden_facts
      golden_reach Let_def)


lemma solid_checked:
  "validateLevel solidStructure =
     \<lparr>valid = False, reachableGold = [], unreachableGold = [], spawnPosition = None,
      issues = [''No spawn position (M) found in level'']\<rparr>"
  "\<not> isFullySolvable solidStructure"
  by (simp_all add: validateLevel_def isFullySolvable_def canSolveLevel_def getSpawnPosition_def
      getGoldPositions_def findTiles_def solidStructure_def Let_def)


lemma candidates_two:
  "candidates transitions sortShuffle config rng random 2 k j =
     (case generateRaw transitions sortShuffle config rng k random j of
        Inl e \<Rightarrow> []
      | Inr first \<Rightarrow>
          produced first #
          (case generateRaw transitions sortShuffle config rng (rngCalls first) random
                  (randomCalls first) of
             Inl e \<Rightarrow> []
           | Inr second \<Rightarrow> [produced second]))"
  by (simp add: numeral_2_eq_2 split: sum.split)


lemma small_candidates:
  "candidates [] keepOrder smallConfig solidThenEmpty (\<lambda>i. 0) 2 0 0 =
     [solidStructure, goldenLevel]"
  "candidates [] keepOrder smallConfig emptyThenSolid (\<lambda>i. 0) 2 0 0 =
     [goldenLevel, solidStructure]"
  by (simp_all add: candidates_two small_attempts)

theorem generate_returns_first_success_or_best_witness:
  "2 \<le> configHeight smallConfig \<and>
   (\<exists>result. generate [] keepOrder smallConfig 2 solidThenEmpty 0 (\<lambda>i. 0) 0 False = Inr result \<and>
      level result = Some goldenLevel \<and> validation result = Some (validateLevel goldenLevel) \<and>
      attempts result = 2 \<and> \<not> fullySolvable result) \<and>
   (\<exists>result. generate [] keepOrder smallConfig 2 emptyThenSolid 0 (\<lambda>i. 0) 0 True = Inr result \<and>
      level result = Some goldenLevel \<and> validation result = Some (validateLevel goldenLevel) \<and>
      attempts result = 2 \<and> \<not> fullySolvable result)"
proof -
  have h: "2 \<le> configHeight smallConfig"
    by (simp add: configHeight_def smallConfig_def LEVEL_HEIGHT_def)
  have rA: "\<forall>i. 0 \<le> solidThenEmpty i \<and> solidThenEmpty i < 1"
    by (simp add: solidThenEmpty_def)
  have rB: "\<forall>i. 0 \<le> emptyThenSolid i \<and> emptyThenSolid i < 1"
    by (simp add: emptyThenSolid_def)
  have two: "(1::nat) \<le> 2" by simp
  have fst_snd: "\<And>a b i. i < (2::nat) \<Longrightarrow> i = 0 \<and> [a, b] ! i = (a::Level) \<or> i = 1 \<and> [a, b] ! i = b"
    by (auto simp add: less_Suc_eq numeral_2_eq_2)
  have at: "\<And>a b. [a, b] ! 0 = (a::Level)" "\<And>a b. [a, b] ! 1 = (b::Level)" by simp_all
  note A = generate_returns_first_success_or_best [where config = smallConfig
      and rng = solidThenEmpty and maxAttempts = 2 and transitions = "[]"
      and sortShuffle = keepOrder and random = "\<lambda>i. 0" and k = 0 and j = 0
      and requireFullSolve = False, OF h rA two, THEN conjunct1, unfolded small_candidates]
  note B = generate_returns_first_success_or_best [where config = smallConfig
      and rng = emptyThenSolid and maxAttempts = 2 and transitions = "[]"
      and sortShuffle = keepOrder and random = "\<lambda>i. 0" and k = 0 and j = 0
      and requireFullSolve = True, OF h rB two, THEN conjunct1, unfolded small_candidates]
  have first: "\<exists>result. generate [] keepOrder smallConfig 2 solidThenEmpty 0 (\<lambda>i. 0) 0 False =
        Inr result \<and>
      level result = Some goldenLevel \<and> validation result = Some (validateLevel goldenLevel) \<and>
      attempts result = 2 \<and> \<not> fullySolvable result"
  proof -
    from A obtain result i where gen:
      "generate [] keepOrder smallConfig 2 solidThenEmpty 0 (\<lambda>i. 0) 0 False = Inr result"
      and i: "i < 2"
      and res: "level result = Some ([solidStructure, goldenLevel] ! i)"
        "validation result = Some (validateLevel ([solidStructure, goldenLevel] ! i))"
        "fullySolvable result = (valid (validateLevel ([solidStructure, goldenLevel] ! i)) \<and>
           isFullySolvable ([solidStructure, goldenLevel] ! i))"
      and alt: "valid (validateLevel ([solidStructure, goldenLevel] ! i)) \<and> attempts result = i + 1 \<or>
        (\<forall>i' < 2. \<not> valid (validateLevel ([solidStructure, goldenLevel] ! i')))"
      by auto
    from alt at golden_checked have ok: "valid (validateLevel ([solidStructure, goldenLevel] ! i))"
      and n: "attempts result = i + 1"
      by (auto dest: spec [of _ 1])
    from fst_snd [OF i, of solidStructure goldenLevel] ok solid_checked
    have "i = 1" "[solidStructure, goldenLevel] ! i = goldenLevel" by auto
    with gen res n golden_checked show ?thesis by simp
  qed
  have second: "\<exists>result. generate [] keepOrder smallConfig 2 emptyThenSolid 0 (\<lambda>i. 0) 0 True =
        Inr result \<and>
      level result = Some goldenLevel \<and> validation result = Some (validateLevel goldenLevel) \<and>
      attempts result = 2 \<and> \<not> fullySolvable result"
  proof -
    let ?score = "\<lambda>c. int (length (reachableGold (validateLevel c))) -
        10 * int (length (unreachableGold (validateLevel c))) -
        int (length (issues (validateLevel c))) +
        (if valid (validateLevel c) \<and> isFullySolvable c then 50 else 0)"
    from B obtain result i where gen:
      "generate [] keepOrder smallConfig 2 emptyThenSolid 0 (\<lambda>i. 0) 0 True = Inr result"
      and i: "i < 2"
      and res: "level result = Some ([goldenLevel, solidStructure] ! i)"
        "validation result = Some (validateLevel ([goldenLevel, solidStructure] ! i))"
        "fullySolvable result = (valid (validateLevel ([goldenLevel, solidStructure] ! i)) \<and>
           isFullySolvable ([goldenLevel, solidStructure] ! i))"
      and alt: "isFullySolvable ([goldenLevel, solidStructure] ! i) \<or>
        attempts result = 2 \<and>
        (\<forall>i' < 2. ?score ([goldenLevel, solidStructure] ! i') \<le>
           ?score ([goldenLevel, solidStructure] ! i))"
      by auto
    from fst_snd [OF i, of goldenLevel solidStructure] golden_checked solid_checked
    have nofull: "\<not> isFullySolvable ([goldenLevel, solidStructure] ! i)" by auto
    with alt have n: "attempts result = 2"
      and all: "\<forall>i' < 2. ?score ([goldenLevel, solidStructure] ! i') \<le>
        ?score ([goldenLevel, solidStructure] ! i)"
      by blast+
    from all [rule_format, of 0]
    have best: "?score goldenLevel \<le> ?score ([goldenLevel, solidStructure] ! i)"
      by simp
    have "?score goldenLevel = 1" "?score solidStructure = - 1"
      by (simp_all add: golden_checked solid_checked)
    with best fst_snd [OF i, of goldenLevel solidStructure]
    have "[goldenLevel, solidStructure] ! i = goldenLevel" by auto
    with gen res n golden_checked show ?thesis by simp
  qed
  from h first second show ?thesis by blast
qed

text \<open>One row of two cells: whatever the table, the random sources and the counts asked for.\<close>

lemma generate_single_row_throws:
  "generate transitions sortShuffle
     \<lparr>width = Some 2, height = Some 1, goldCount = golds, enemyCount = enemies\<rparr>
     (Suc n) rng k random j requireFullSolve = Inl TypeError"
  by (simp add: generate_def generateRaw_def generateStructure_def createEmptyLevel_def
      rowMajor_def setCell_def postProcessStructure_def repairCell_def cellAt_def getTile_def
      levelWidth_def cloneLevel_def placeEntities_def chooseSpawn_def validPositions_def
      fallbackSpawn_def Let_def upt_0_2 numeral_2_eq_2)

text \<open>
  Against claim C9 as stated: a configuration of one row and two columns is a configuration
  \<^verbatim>\<open>generate\<close> accepts, and on it the first attempt throws.  No position is valid in a grid
  of one row, and the fallback scan for a spawn reads \<^verbatim>\<open>level[height - 2]\<close>, which does not
  exist.
\<close>

theorem generate_throws_on_one_row:
  "generate [] keepOrder
     \<lparr>width = Some 2, height = Some 1, goldCount = None, enemyCount = None\<rparr>
     1 (\<lambda>i. 0) 0 (\<lambda>i. 0) 0 False = Inl TypeError"
  using generate_single_row_throws [of "[]" keepOrder None None 0 "\<lambda>i. 0" 0 "\<lambda>i. 0" 0 False]
  by simp

end
